(* ===== verification/Prelude.thy ===== *)
theory Prelude
  imports Main "HOL-Library.Sublist" "HOL-Library.Word"
begin

text \<open>
  Shared vocabulary of the development: Go error values and the result type
  of a fallible call, the collections of facts the component proofs draw on,
  and generic lemmas on lists and options.
\<close>

section \<open>Collections of facts\<close>

named_theorems text_simps "evaluation rules of the text library"
named_theorems store_laws "laws of the storage interfaces"
named_theorems pipeline_defs "definitions of the processing pipeline"

section \<open>Go errors and results\<close>

text \<open>
  A Go error is a value.  \<open>Errorf m\<close> is an error made by \<open>fmt.Errorf\<close> with a
  fixed text, \<open>Wrap m e\<close> one made with \<open>"m: %w"\<close> (or rendered with
  \<open>"m: %v"\<close>) around \<open>e\<close>; the other constructors are the errors of the
  standard library and of remote services the program receives.
\<close>

datatype go_error =
    Errorf string
  | Wrap string go_error
  | JsonSyntax
  | JsonType
  | CsvBareQuote
  | CsvQuote
  | CsvFieldCount
  | Cancelled
  | Remote string

type_synonym 'a result = "go_error + 'a"

abbreviation is_err :: "'a result \<Rightarrow> bool" where
  "is_err r \<equiv> Sum_Type.isl r"

lemma isl_case_wrap [simp]: "Sum_Type.isl (case x of Inl e \<Rightarrow> Inl (f e) | Inr r \<Rightarrow> Inr r) = Sum_Type.isl x"
  by (cases x) simp_all

text \<open>Go maps with a zero value: reading a missing key of a string map gives \<open>""\<close>.\<close>

definition get_or_zero :: "(string \<rightharpoonup> string) \<Rightarrow> string \<Rightarrow> string" where
  "get_or_zero m k = (case m k of None \<Rightarrow> [] | Some v \<Rightarrow> v)"

lemma get_or_zero_upd [simp]:
  "get_or_zero (m(k \<mapsto> v)) k' = (if k' = k then v else get_or_zero m k')"
  by (simp add: get_or_zero_def)

text \<open>The idiom \<open>if s == "" { s = d }\<close>.\<close>

definition or_default :: "string \<Rightarrow> string \<Rightarrow> string" where
  "or_default s d = (if s = [] then d else s)"

lemma or_default_nonempty: "d \<noteq> [] \<Longrightarrow> or_default s d \<noteq> []"
  by (simp add: or_default_def)

section \<open>Lists\<close>

lemma prefix_hd: "prefix p s \<Longrightarrow> p \<noteq> [] \<Longrightarrow> s \<noteq> [] \<and> hd s = hd p"
  by (cases p; cases s) auto

lemma find_Some_iff_in:
  "find P xs = Some x \<Longrightarrow> x \<in> set xs \<and> P x"
  by (induction xs) (auto split: if_splits)

lemma list_all_map_id: "list_all P xs \<Longrightarrow> (\<And>x. P x \<Longrightarrow> f x = x) \<Longrightarrow> map f xs = xs"
  by (induction xs) auto

lemma takeWhile_separator: "c \<notin> set xs \<Longrightarrow> takeWhile (\<lambda>x. x \<noteq> c) (xs @ c # ys) = xs"
  by (induction xs) auto

text \<open>Replacing an element by a smaller one makes a sum smaller.\<close>

lemma sum_list_update_less:
  "i < length xs \<Longrightarrow> f y < f (xs ! i) \<Longrightarrow> sum_list (map f (xs[i := y])) < (sum_list (map f xs) :: nat)"
  by (induction xs arbitrary: i) (auto simp: nth_Cons split: nat.splits)

end
