(* ===== verification/Go_Text.thy ===== *)
theory Go_Text
  imports Prelude
begin

text \<open>
  The part of Go's \<open>strings\<close>, \<open>unicode/utf8\<close> and \<open>strconv\<close> packages the
  program calls.  A Go string is a sequence of bytes, modelled as a
  \<^typ>\<open>string\<close> whose characters are bytes.  White space follows
  \<open>unicode.IsSpace\<close> on UTF-8 input.  Case mapping is bytewise on ASCII
  strings; on any other string it maps the decoded runes with the tables of
  the \<open>unicode\<close> package, which are a parameter (record \<open>unicode\<close>).
\<close>

section \<open>Bytes and UTF-8\<close>

abbreviation byte :: "char \<Rightarrow> int" where
  "byte c \<equiv> of_char c"

abbreviation is_ascii :: "char \<Rightarrow> bool" where
  "is_ascii c \<equiv> byte c < 128"

definition cont_byte :: "int \<Rightarrow> bool" where
  "cont_byte b \<longleftrightarrow> 128 \<le> b \<and> b < 192"

text \<open>
  \<open>utf8.DecodeRune\<close>: the rune at the head of a non-empty byte string and its
  width; an ill-formed sequence gives \<open>RuneError\<close> (U+FFFD) of width 1.
\<close>

definition rune_error :: int where
  "rune_error = 65533"

fun decode_rune :: "string \<Rightarrow> int \<times> nat" where
  "decode_rune [] = (rune_error, 0)"
| "decode_rune (c # cs) =
     (let b0 = byte c; bs = map byte (take 3 cs) in
      if b0 < 128 then (b0, 1)
      else if 194 \<le> b0 \<and> b0 < 224 then
        (case bs of b1 # _ \<Rightarrow>
           if cont_byte b1 then ((b0 - 192) * 64 + (b1 - 128), 2) else (rune_error, 1)
         | _ \<Rightarrow> (rune_error, 1))
      else if 224 \<le> b0 \<and> b0 < 240 then
        (case bs of b1 # b2 # _ \<Rightarrow>
           if cont_byte b1 \<and> cont_byte b2 \<and> (b0 = 224 \<longrightarrow> 160 \<le> b1) \<and> (b0 = 237 \<longrightarrow> b1 < 160)
           then ((b0 - 224) * 4096 + (b1 - 128) * 64 + (b2 - 128), 3) else (rune_error, 1)
         | _ \<Rightarrow> (rune_error, 1))
      else if 240 \<le> b0 \<and> b0 < 245 then
        (case bs of b1 # b2 # b3 # _ \<Rightarrow>
           if cont_byte b1 \<and> cont_byte b2 \<and> cont_byte b3 \<and>
              (b0 = 240 \<longrightarrow> 144 \<le> b1) \<and> (b0 = 244 \<longrightarrow> b1 < 144)
           then ((b0 - 240) * 262144 + (b1 - 128) * 4096 + (b2 - 128) * 64 + (b3 - 128), 4)
           else (rune_error, 1)
         | _ \<Rightarrow> (rune_error, 1))
      else (rune_error, 1))"

text \<open>\<open>utf8.AppendRune\<close>: surrogates and values above U+10FFFF encode as U+FFFD.\<close>

definition encode_rune :: "int \<Rightarrow> string" where
  "encode_rune r0 =
     (let r = (if 55296 \<le> r0 \<and> r0 < 57344 \<or> 1114111 < r0 then rune_error else r0) in
      if r < 128 then [char_of r]
      else if r < 2048 then [char_of (192 + r div 64), char_of (128 + r mod 64)]
      else if r < 65536 then
        [char_of (224 + r div 4096), char_of (128 + r div 64 mod 64), char_of (128 + r mod 64)]
      else
        [char_of (240 + r div 262144), char_of (128 + r div 4096 mod 64),
         char_of (128 + r div 64 mod 64), char_of (128 + r mod 64)])"

fun decode_runes :: "string \<Rightarrow> int list" where
  "decode_runes [] = []"
| "decode_runes (c # cs) =
     (let (r, w) = decode_rune (c # cs) in r # decode_runes (drop (w - 1) cs))"

text \<open>
  \<open>valid_utf8\<close> is \<open>utf8.Valid\<close>; \<open>coerce_utf8\<close> replaces every ill-formed byte by
  the encoding of U+FFFD, as \<open>encoding/json\<close> does in both directions.
\<close>

fun valid_utf8 :: "string \<Rightarrow> bool" where
  "valid_utf8 [] = True"
| "valid_utf8 (c # cs) =
     (let (r, w) = decode_rune (c # cs)
      in (r, w) \<noteq> (rune_error, 1) \<and> valid_utf8 (drop (w - 1) cs))"

fun coerce_utf8 :: "string \<Rightarrow> string" where
  "coerce_utf8 [] = []"
| "coerce_utf8 (c # cs) =
     (let (r, w) = decode_rune (c # cs)
      in (if (r, w) = (rune_error, 1) then encode_rune rune_error else take w (c # cs)) @
         coerce_utf8 (drop (w - 1) cs))"

section \<open>White space\<close>

definition ascii_space :: "char \<Rightarrow> bool" where
  "ascii_space c \<longleftrightarrow> c \<in> {CHR 0x09, CHR 0x0A, CHR 0x0B, CHR 0x0C, CHR 0x0D, CHR '' ''}"

text \<open>UTF-8 encodings of the non-ASCII runes for which \<open>unicode.IsSpace\<close> holds.\<close>

definition wide_spaces :: "string list" where
  "wide_spaces =
     [[CHR 0xC2, CHR 0x85], [CHR 0xC2, CHR 0xA0], [CHR 0xE1, CHR 0x9A, CHR 0x80],
      [CHR 0xE2, CHR 0x80, CHR 0x80], [CHR 0xE2, CHR 0x80, CHR 0x81],
      [CHR 0xE2, CHR 0x80, CHR 0x82], [CHR 0xE2, CHR 0x80, CHR 0x83],
      [CHR 0xE2, CHR 0x80, CHR 0x84], [CHR 0xE2, CHR 0x80, CHR 0x85],
      [CHR 0xE2, CHR 0x80, CHR 0x86], [CHR 0xE2, CHR 0x80, CHR 0x87],
      [CHR 0xE2, CHR 0x80, CHR 0x88], [CHR 0xE2, CHR 0x80, CHR 0x89],
      [CHR 0xE2, CHR 0x80, CHR 0x8A], [CHR 0xE2, CHR 0x80, CHR 0xA8],
      [CHR 0xE2, CHR 0x80, CHR 0xA9], [CHR 0xE2, CHR 0x80, CHR 0xAF],
      [CHR 0xE2, CHR 0x81, CHR 0x9F], [CHR 0xE3, CHR 0x80, CHR 0x80]]"

text \<open>Drop the leading white space, given the encodings of the wide spaces.\<close>

fun strip :: "string list \<Rightarrow> string \<Rightarrow> string" where
  "strip ws [] = []"
| "strip ws (c # cs) =
     (if ascii_space c then strip ws cs
      else if is_ascii c then c # cs
      else (case find (\<lambda>w. prefix w (c # cs)) ws of
              None \<Rightarrow> c # cs
            | Some w \<Rightarrow> strip ws (drop (length w - 1) cs)))"

definition trim_left_space :: "string \<Rightarrow> string" where
  "trim_left_space s = strip wide_spaces s"

text \<open>\<open>strings.TrimSpace\<close>: the trailing runes are found from the end of the string.\<close>

definition trim_space :: "string \<Rightarrow> string" where
  "trim_space s = rev (strip (map rev wide_spaces) (rev (strip wide_spaces s)))"

text \<open>\<open>strings.Fields\<close>: the maximal runs of non-space bytes.\<close>

fun words_acc :: "string \<Rightarrow> string \<Rightarrow> string list" where
  "words_acc acc [] = (if acc = [] then [] else [rev acc])"
| "words_acc acc (c # cs) =
     (if ascii_space c then (if acc = [] then [] else [rev acc]) @ words_acc [] cs
      else if is_ascii c then words_acc (c # acc) cs
      else (case find (\<lambda>w. prefix w (c # cs)) wide_spaces of
              None \<Rightarrow> words_acc (c # acc) cs
            | Some w \<Rightarrow> (if acc = [] then [] else [rev acc]) @ words_acc [] (drop (length w - 1) cs)))"

definition split_words :: "string \<Rightarrow> string list" where
  "split_words s = words_acc [] s"

fun contains :: "string \<Rightarrow> string \<Rightarrow> bool" where
  "contains p [] = (p = [])"
| "contains p (c # cs) = (prefix p (c # cs) \<or> contains p cs)"

section \<open>Case mapping\<close>

text \<open>The tables of the \<open>unicode\<close> package for runes beyond ASCII.\<close>

record unicode =
  lower_rune :: "int \<Rightarrow> int"
  upper_rune :: "int \<Rightarrow> int"

definition ascii_lower :: "char \<Rightarrow> char" where
  "ascii_lower c = (if 65 \<le> byte c \<and> byte c \<le> 90 then char_of (byte c + 32) else c)"

definition ascii_upper :: "char \<Rightarrow> char" where
  "ascii_upper c = (if 97 \<le> byte c \<and> byte c \<le> 122 then char_of (byte c - 32) else c)"

definition map_runes :: "(int \<Rightarrow> int) \<Rightarrow> string \<Rightarrow> string" where
  "map_runes f s = concat (map (\<lambda>r. encode_rune (f r)) (decode_runes s))"

definition to_lower :: "unicode \<Rightarrow> string \<Rightarrow> string" where
  "to_lower uc s =
     (if list_all is_ascii s then map ascii_lower s else map_runes (lower_rune uc) s)"

definition to_upper :: "unicode \<Rightarrow> string \<Rightarrow> string" where
  "to_upper uc s =
     (if list_all is_ascii s then map ascii_upper s else map_runes (upper_rune uc) s)"

section \<open>Decimal numbers\<close>

definition is_digit :: "char \<Rightarrow> bool" where
  "is_digit c \<longleftrightarrow> 48 \<le> byte c \<and> byte c \<le> 57"

definition digit_val :: "char \<Rightarrow> int" where
  "digit_val c = byte c - 48"

definition digits_val :: "string \<Rightarrow> int" where
  "digits_val ds = foldl (\<lambda>n c. n * 10 + digit_val c) 0 ds"

abbreviation int64_min :: int where "int64_min \<equiv> - (2 ^ 63)"
abbreviation int64_max :: int where "int64_max \<equiv> 2 ^ 63 - 1"

definition in_int64 :: "int \<Rightarrow> bool" where
  "in_int64 n \<longleftrightarrow> int64_min \<le> n \<and> n \<le> int64_max"

text \<open>
  \<open>strconv.Atoi\<close> and \<open>strconv.ParseInt(s, 10, 64)\<close> on a 64-bit platform: an optional
  sign and at least one digit; a value outside \<open>int64\<close> is an error (\<open>None\<close>).
\<close>

definition atoi :: "string \<Rightarrow> int option" where
  "atoi s =
     (let (neg, ds) = (case s of
            c # cs \<Rightarrow> if c = CHR ''-'' then (True, cs) else if c = CHR ''+'' then (False, cs)
                     else (False, s)
          | [] \<Rightarrow> (False, []))
      in if ds \<noteq> [] \<and> list_all is_digit ds
         then (let n = (if neg then - digits_val ds else digits_val ds)
               in if in_int64 n then Some n else None)
         else None)"

text \<open>\<open>strconv.Itoa\<close>, the \<open>%d\<close> verb.\<close>

function nat_digits :: "int \<Rightarrow> string" where
  "nat_digits n =
     (if n < 10 then [char_of (48 + n)] else nat_digits (n div 10) @ [char_of (48 + n mod 10)])"
  by pat_completeness auto
termination
  by (relation "measure nat") auto

declare nat_digits.simps [simp del]

definition itoa :: "int \<Rightarrow> string" where
  "itoa n = (if n < 0 then CHR ''-'' # nat_digits (- n) else nat_digits n)"

section \<open>Laws\<close>

subsection \<open>UTF-8\<close>

lemma byte_bounds [simp]: "0 \<le> byte c" "byte c < 256"
  by (simp_all add: of_char_def)
lemma div64_twice: "(r :: int) div 4096 = r div 64 div 64" "r div 262144 = r div 64 div 64 div 64"
  by (simp_all add: zdiv_zmult2_eq [of 64 r 64, simplified] zdiv_zmult2_eq [of 64 r 4096, simplified]
    zdiv_zmult2_eq [of 64 "r div 64" 64, simplified])

lemma decode_encode: 
  assumes r: "0 \<le> r" "r < 55296 \<or> 57344 \<le> r \<and> r \<le> 1114111"
  shows "decode_rune (encode_rune r @ s) = (r, length (encode_rune r))"
proof -
  define q p o' where "q = r div 64" and "p = q div 64" and "o' = p div 64"
  have eqs: "r = 64 * q + r mod 64" "q = 64 * p + q mod 64" "p = 64 * o' + p mod 64"
    by (simp_all add: q_def p_def o'_def)
  have divs: "r div 64 = q" "r div 4096 = p" "r div 262144 = o'"
    by (simp_all add: q_def p_def o'_def div64_twice)
  have bnd: "0 \<le> r mod 64" "r mod 64 < 64" "0 \<le> q mod 64" "q mod 64 < 64" "0 \<le> p mod 64" "p mod 64 < 64"
    by simp_all
  have valid: "\<not> (55296 \<le> r \<and> r < 57344 \<or> 1114111 < r)" using r by linarith
  consider "r < 128" | "128 \<le> r" "r < 2048" | "2048 \<le> r" "r < 65536" | "65536 \<le> r" by linarith
  then show ?thesis
  proof cases
    case 1 with r show ?thesis by (simp add: encode_rune_def Let_def)
  next
    case 2
    then have "2 \<le> q" "q < 32" using eqs bnd by linarith+
    moreover have "q * 64 + r mod 64 = r" using eqs by linarith
    ultimately show ?thesis using 2 by (simp add: encode_rune_def Let_def cont_byte_def divs)
  next
    case 3
    have r': "r \<le> 55295 \<or> 57344 \<le> r" using r by linarith
    have "p < 16" "0 \<le> p" using 3 eqs(1,2) bnd by linarith+
    moreover have "p = 0 \<Longrightarrow> 32 \<le> q mod 64" using 3 eqs(1,2) bnd by linarith
    moreover have "p = 13 \<Longrightarrow> q mod 64 < 32" using r'
    proof
      assume "p = 13" "r \<le> 55295" then show ?thesis using eqs(1,2) bnd by linarith
    next
      assume "p = 13" "57344 \<le> r" then show ?thesis using eqs(1,2) bnd by linarith
    qed
    moreover have "p * 4096 + q mod 64 * 64 + r mod 64 = r" using eqs(1,2) by linarith
    moreover have "encode_rune r = [char_of (224 + p), char_of (128 + q mod 64), char_of (128 + r mod 64)]"
      unfolding encode_rune_def if_not_P [OF valid] Let_def divs using 3 by simp
    ultimately show ?thesis by (simp add: cont_byte_def)
  next
    case 4
    then have hi: "r \<le> 1114111" using r(2) by linarith
    have "o' < 5" "0 \<le> o'" using 4 hi eqs bnd by linarith+
    moreover have "o' = 0 \<Longrightarrow> 16 \<le> p mod 64" using 4 eqs bnd by linarith
    moreover have "o' = 4 \<Longrightarrow> p mod 64 < 16" using hi eqs bnd by linarith
    moreover have "o' * 262144 + p mod 64 * 4096 + q mod 64 * 64 + r mod 64 = r"
      using eqs by linarith
    moreover have "encode_rune r = [char_of (240 + o'), char_of (128 + p mod 64),
        char_of (128 + q mod 64), char_of (128 + r mod 64)]"
      unfolding encode_rune_def if_not_P [OF valid] Let_def divs using 4 by simp
    ultimately show ?thesis by (simp add: cont_byte_def)
 qed
qed

text \<open>A well-formed rune is decoded from its own bytes alone.\<close>

lemma decode_rune_local:
  assumes "decode_rune s = (r, w)" and "(r, w) \<noteq> (rune_error, 1)" and "s \<noteq> []"
  shows "1 \<le> w" and "w \<le> length s" and "decode_rune (take w s @ t) = (r, w)"
    and "w = 1 \<longleftrightarrow> is_ascii (hd s)" and "w \<noteq> 1 \<Longrightarrow> \<forall>b \<in> set (take w s). \<not> is_ascii b"
proof -
  obtain c cs where s: "s = c # cs" using assms(3) by (cases s) auto
  have "1 \<le> w \<and> w \<le> length s \<and> decode_rune (take w s @ t) = (r, w) \<and> (w = 1 \<longleftrightarrow> is_ascii (hd s)) \<and>
     (w \<noteq> 1 \<longrightarrow> (\<forall>b \<in> set (take w s). \<not> is_ascii b))"
    using assms(1,2) unfolding s
    by (cases cs; cases "tl cs"; cases "tl (tl cs)")
      (auto simp: Let_def cont_byte_def split: if_splits)
  then show "1 \<le> w" and "w \<le> length s" and "decode_rune (take w s @ t) = (r, w)"
    and "w = 1 \<longleftrightarrow> is_ascii (hd s)" and "w \<noteq> 1 \<Longrightarrow> \<forall>b \<in> set (take w s). \<not> is_ascii b"
    by auto
qed

lemma valid_utf8_append_rune:
  assumes "decode_rune (u @ t) = (r, length u)" and "u \<noteq> []" and "(r, length u) \<noteq> (rune_error, 1)"
  shows "valid_utf8 (u @ t) = valid_utf8 t"
  using assms by (cases u) auto

lemma encode_rune_error: "length (encode_rune rune_error) = 3"
  by (simp add: encode_rune_def rune_error_def)

lemma decode_encode_error: "decode_rune (encode_rune rune_error @ t) = (rune_error, 3)"
  using decode_encode [of rune_error t] by (simp add: encode_rune_error, simp add: rune_error_def)

lemma valid_coerce_utf8: "valid_utf8 (coerce_utf8 s)"
proof (induction s rule: coerce_utf8.induct)
  case (2 c cs)
  obtain r w where d: "decode_rune (c # cs) = (r, w)" by force
  then have IH: "valid_utf8 (coerce_utf8 (drop (w - 1) cs))" using 2 by simp
  show ?case
  proof (cases "(r, w) = (rune_error, 1)")
    case True
    then show ?thesis using d IH
      by (simp add: valid_utf8_append_rune [of _ _ rune_error] decode_encode_error encode_rune_error
          flip: length_greater_0_conv)
  next
    case False
    note l = decode_rune_local [OF d False, simplified]
    have "valid_utf8 (take w (c # cs) @ coerce_utf8 (drop (w - 1) cs))"
      using IH l(1,2) False valid_utf8_append_rune [of "take w (c # cs)" "coerce_utf8 (drop (w - 1) cs)" r]
       decode_rune_local(3) [OF d False]
      by auto
    with d False show ?thesis by auto
  qed
qed simp

lemma coerce_valid_utf8 [simp]: "valid_utf8 s \<Longrightarrow> coerce_utf8 s = s"
proof (induction s rule: coerce_utf8.induct)
  case (2 c cs)
  obtain r w where d: "decode_rune (c # cs) = (r, w)" by force
  with 2 have v: "(r, w) \<noteq> (rune_error, 1)" and IH: "coerce_utf8 (drop (w - 1) cs) = drop (w - 1) cs" by auto
  have "take w (c # cs) @ drop (w - 1) cs = c # cs"
    using decode_rune_local(1) [OF d v] by (cases w) auto
  with d v IH show ?case by auto
qed simp

lemma valid_utf8_ascii: "list_all is_ascii s \<Longrightarrow> valid_utf8 s"
  by (induction s) (auto simp: rune_error_def)
subsection \<open>White space\<close>

lemma strip_suffix: "suffix (strip ws s) s"
proof (induction ws s rule: strip.induct)
  case (2 ws c cs)
  have "suffix (strip ws (drop n cs)) (c # cs)" if "suffix (strip ws (drop n cs)) (drop n cs)" for n
    using that suffix_drop [of n cs] by (metis suffix_ConsI suffix_order.trans)
  then show ?case using 2 by (auto split: option.splits intro: suffix_ConsI)
qed simp

lemma strip_length: "length (strip ws s) \<le> length s"
  using strip_suffix suffix_length_le by blast

lemma strip_fixpoint:
  "strip ws (c # cs) = c # cs \<longleftrightarrow>
     \<not> ascii_space c \<and> (is_ascii c \<or> find (\<lambda>w. prefix w (c # cs)) ws = None)"
proof -
  have "length (strip ws (drop n cs)) < length (c # cs)" for n
    using strip_length [of ws "drop n cs"] by simp
  then have "strip ws (drop n cs) \<noteq> c # cs" for n
    by (metis less_irrefl)
  from this [of 0] this show ?thesis by (auto split: option.splits)
qed

lemma strip_idem [simp]: "strip ws (strip ws s) = strip ws s"
proof (induction ws s rule: strip.induct)
  case (2 ws c cs)
  then show ?case
    by (cases "find (\<lambda>w. prefix w (c # cs)) ws") (auto simp: strip_fixpoint simp del: strip.simps(2), auto)
qed simp

lemma strip_prefix_closed:
  assumes "strip ws u = u" and "prefix t u"
  shows "strip ws t = t"
proof (cases t)
  case (Cons c cs)
  with assms obtain ds where u: "u = c # ds" and p: "prefix cs ds"
    by (cases u) auto
  from assms(1) have "\<not> ascii_space c" and "is_ascii c \<or> find (\<lambda>w. prefix w u) ws = None"
    unfolding u strip_fixpoint by auto
  moreover have "find (\<lambda>w. prefix w u) ws = None \<Longrightarrow> find (\<lambda>w. prefix w t) ws = None"
    using assms(2) by (auto simp: find_None_iff intro: prefix_order.trans)
  ultimately show ?thesis unfolding Cons strip_fixpoint by auto
qed simp

lemma trim_space_idem [simp]: "trim_space (trim_space s) = trim_space s"
proof -
  let ?u = "strip wide_spaces s" and ?r = "strip (map rev wide_spaces)"
  have "prefix (trim_space s) ?u"
    using strip_suffix [of "map rev wide_spaces" "rev ?u"] by (simp add: trim_space_def suffix_to_prefix)
  then have "strip wide_spaces (trim_space s) = trim_space s"
    by (rule strip_prefix_closed [rotated]) simp
  then show ?thesis by (simp add: trim_space_def)
qed

lemma trim_space_Nil [simp]: "trim_space [] = []"
  by (simp add: trim_space_def)

lemma trim_space_ascii:
  assumes "s \<noteq> []" "is_ascii (hd s)" "is_ascii (last s)" "\<not> ascii_space (hd s)" "\<not> ascii_space (last s)"
  shows "trim_space s = s"
proof -
  have "strip ws (t :: string) = t" if "t \<noteq> []" "is_ascii (hd t)" "\<not> ascii_space (hd t)" for ws t
    using that by (cases t) auto
  from this [of s] this [of "rev s"] assms show ?thesis by (simp add: trim_space_def hd_rev)
qed

subsection \<open>Decimal numbers\<close>

lemma digits_val_snoc [simp]: "digits_val (ds @ [c]) = digits_val ds * 10 + digit_val c"
  by (simp add: digits_val_def)

lemma nat_digits_correct:
  "0 \<le> n \<Longrightarrow> digits_val (nat_digits n) = n \<and> nat_digits n \<noteq> [] \<and> list_all is_digit (nat_digits n)"
proof (induction n rule: nat_digits.induct)
  case (1 n)
  then show ?case
    by (subst (1 2 3) nat_digits.simps)
      (auto simp: digit_val_def is_digit_def [of "char_of _"] digits_val_def [of "[_]"])
qed

lemma nat_digits_hd:
  assumes "0 \<le> n"
  shows "\<exists>c cs. nat_digits n = c # cs \<and> is_digit c"
  using nat_digits_correct [OF assms] by (cases "nat_digits n") auto

text \<open>Printing an \<open>int64\<close> and reading it back.\<close>

lemma atoi_itoa:
  assumes "in_int64 n"
  shows "atoi (itoa n) = Some n"
proof (cases "n < 0")
  case True
  then show ?thesis
    using nat_digits_correct [of "- n"] assms by (auto simp: atoi_def itoa_def)
next
  case False
  then obtain c cs where c: "nat_digits n = c # cs" "is_digit c"
    using nat_digits_hd [of n] by auto
  then have "c \<noteq> CHR ''-''" "c \<noteq> CHR ''+''" by (auto simp: is_digit_def)
  with c False show ?thesis
    using nat_digits_correct [of n] assms by (auto simp: atoi_def itoa_def)
qed

lemma atoi_range: "atoi s = Some n \<Longrightarrow> in_int64 n"
  by (auto simp: atoi_def Let_def split: if_splits prod.splits)

subsection \<open>Case mapping\<close>

lemma to_lower_ascii: "list_all is_ascii s \<Longrightarrow> to_lower uc s = map ascii_lower s"
  by (simp add: to_lower_def)
lemma ascii_lower_idem [simp]: "ascii_lower (ascii_lower c) = ascii_lower c"
  by (auto simp: ascii_lower_def)
lemma ascii_lower_upper [simp]: "ascii_lower (ascii_upper c) = ascii_lower c"
  by (auto simp: ascii_lower_def ascii_upper_def)
lemma encode_rune_nonempty [simp]: "encode_rune r \<noteq> []"
  by (simp add: encode_rune_def Let_def)

lemma map_runes_nonempty:
  assumes "s \<noteq> []"
  shows "map_runes f s \<noteq> []"
proof -
  obtain c cs where s: "s = c # cs" using assms by (cases s) auto
  obtain r w where "decode_rune (c # cs) = (r, w)" by force
  then show ?thesis by (simp add: s map_runes_def del: decode_rune.simps)
qed

lemma to_lower_eq_Nil [simp]: "to_lower uc s = [] \<longleftrightarrow> s = []"
  by (cases "s = []") (auto simp: to_lower_def map_runes_nonempty)

lemma to_upper_eq_Nil [simp]: "to_upper uc s = [] \<longleftrightarrow> s = []"
  by (cases "s = []") (auto simp: to_upper_def map_runes_nonempty)

subsection \<open>Evaluation on ASCII\<close>

lemma decode_rune_ascii [simp]: "is_ascii c \<Longrightarrow> decode_rune (c # cs) = (byte c, 1)"
  by simp

lemma coerce_utf8_ascii [simp]: "is_ascii c \<Longrightarrow> coerce_utf8 (c # cs) = c # coerce_utf8 cs"
  by (simp add: rune_error_def)

lemma valid_utf8_ascii_Cons [simp]: "is_ascii c \<Longrightarrow> valid_utf8 (c # cs) = valid_utf8 cs"
  by (simp add: rune_error_def)

declare decode_rune.simps [simp del] coerce_utf8.simps(2) [simp del] valid_utf8.simps(2) [simp del]

lemma coerce_utf8_Nil_iff [simp]: "coerce_utf8 s = [] \<longleftrightarrow> s = []"
proof (cases s)
  case (Cons c cs)
  obtain r w where d: "decode_rune (c # cs) = (r, w)" by force
  show ?thesis
  proof (cases "(r, w) = (rune_error, 1)")
    case True
    then show ?thesis using d Cons encode_rune_error by (auto simp: coerce_utf8.simps(2))
  next
    case False
    then show ?thesis using d Cons decode_rune_local(1) [OF d False] by (auto simp: coerce_utf8.simps(2))
  qed
qed simp

lemma decode_runes_Cons_length: "Suc 0 \<le> length (decode_runes s) \<longleftrightarrow> s \<noteq> []"
  by (cases s) (auto split: prod.splits)

lemma itoa_chars: "c \<in> set (itoa n) \<Longrightarrow> c = CHR ''-'' \<or> is_digit c"
  using nat_digits_correct [of n] nat_digits_correct [of "- n"] by (auto simp: itoa_def list_all_iff split: if_splits)

lemma itoa_no_separators: "CHR '':'' \<notin> set (itoa n)" "CHR ''['' \<notin> set (itoa n)" "CHR '']'' \<notin> set (itoa n)"
  using itoa_chars [of "CHR '':''" n] itoa_chars [of "CHR ''[''" n] itoa_chars [of "CHR '']''" n]
  by (auto simp: is_digit_def)

end
