(* ===== verification/Go_Json.thy ===== *)
theory Go_Json
  imports Go_Text
begin

text \<open>
  The part of \<open>encoding/json\<close> the program calls: \<open>Marshal\<close> (printing with HTML
  escaping), the syntax check and reader behind \<open>Valid\<close>, \<open>Unmarshal\<close> and
  \<open>Decoder.Decode\<close>, the conversion of number literals to \<open>float64\<close> and the
  matching of object keys with struct fields.
\<close>

section \<open>Values\<close>

text \<open>An object keeps its members in textual order, a number its literal.\<close>

datatype json =
    JNull
  | JBool bool
  | JNum string
  | JStr string
  | JArr "json list"
  | JObj "(string \<times> json) list"

section \<open>Reading\<close>

definition json_space :: "char \<Rightarrow> bool" where
  "json_space c \<longleftrightarrow> c = CHR '' '' \<or> c = CHR 0x09 \<or> c = CHR 0x0D \<or> c = CHR 0x0A"

definition skip_ws :: "string \<Rightarrow> string" where
  "skip_ws s = dropWhile json_space s"

definition hex_val :: "char \<Rightarrow> int option" where
  "hex_val c =
     (if 48 \<le> byte c \<and> byte c \<le> 57 then Some (byte c - 48)
      else if 97 \<le> byte c \<and> byte c \<le> 102 then Some (byte c - 87)
      else if 65 \<le> byte c \<and> byte c \<le> 70 then Some (byte c - 55)
      else None)"

definition hex4 :: "string \<Rightarrow> int option" where
  "hex4 s = (case s of
       a # b # c # d # _ \<Rightarrow>
         (case (hex_val a, hex_val b, hex_val c, hex_val d) of
            (Some a', Some b', Some c', Some d') \<Rightarrow> Some (((a' * 16 + b') * 16 + c') * 16 + d')
          | _ \<Rightarrow> None)
     | _ \<Rightarrow> None)"

definition simple_escape :: "char \<Rightarrow> char option" where
  "simple_escape c =
     (if c = CHR 0x22 \<or> c = CHR 0x5C \<or> c = CHR ''/'' then Some c
      else if c = CHR ''b'' then Some (CHR 0x08)
      else if c = CHR ''f'' then Some (CHR 0x0C)
      else if c = CHR ''n'' then Some (CHR 0x0A)
      else if c = CHR ''r'' then Some (CHR 0x0D)
      else if c = CHR ''t'' then Some (CHR 0x09)
      else None)"

text \<open>
  The rune of a \<open>\uXXXX\<close> escape and the number of bytes it takes after the \<open>u\<close>:
  a high surrogate followed by an escaped low surrogate is one rune, any other
  surrogate is U+FFFD.
\<close>

definition unicode_escape :: "string \<Rightarrow> (int \<times> nat) option" where
  "unicode_escape s = (case hex4 s of
       None \<Rightarrow> None
     | Some r \<Rightarrow>
         if 55296 \<le> r \<and> r < 57344 then
           (if r < 56320 \<and> prefix [CHR 0x5C, CHR ''u''] (drop 4 s) then
              (case hex4 (drop 6 s) of
                 Some r1 \<Rightarrow> if 56320 \<le> r1 \<and> r1 < 57344
                            then Some ((r - 55296) * 1024 + (r1 - 56320) + 65536, 10)
                            else Some (rune_error, 4)
               | None \<Rightarrow> Some (rune_error, 4))
            else Some (rune_error, 4))
         else Some (r, 4))"

text \<open>A string literal after its opening quote: its value and what follows it.\<close>

fun json_string :: "string \<Rightarrow> (string \<times> string) option" where
  "json_string [] = None"
| "json_string (c # cs) =
     (if c = CHR 0x22 then Some ([], cs)
      else if byte c < 32 then None
      else if c = CHR 0x5C then
        (case cs of
           [] \<Rightarrow> None
         | e # ds \<Rightarrow>
             if e = CHR ''u'' then
               (case unicode_escape ds of
                  None \<Rightarrow> None
                | Some (r, n) \<Rightarrow> map_option (apfst ((@) (encode_rune r))) (json_string (drop n ds)))
             else
               (case simple_escape e of
                  None \<Rightarrow> None
                | Some x \<Rightarrow> map_option (apfst ((#) x)) (json_string ds)))
      else
        (let (r, w) = decode_rune (c # cs);
             u = (if (r, w) = (rune_error, 1) then encode_rune rune_error else take w (c # cs))
         in map_option (apfst ((@) u)) (json_string (drop (w - 1) cs))))"

text \<open>A number literal: \<open>-?(0|[1-9][0-9]*)(\.[0-9]+)?([eE][+-]?[0-9]+)?\<close>.\<close>

definition split_while :: "('a \<Rightarrow> bool) \<Rightarrow> 'a list \<Rightarrow> 'a list \<times> 'a list" where
  "split_while P xs = (takeWhile P xs, dropWhile P xs)"

definition num_int :: "string \<Rightarrow> (string \<times> string) option" where
  "num_int s = (case s of
       [] \<Rightarrow> None
     | c # cs \<Rightarrow> if c = CHR ''0'' then Some ([c], cs)
                else if is_digit c then Some (split_while is_digit s) else None)"

definition num_frac :: "string \<Rightarrow> (string \<times> string) option" where
  "num_frac s = (case s of
       c # cs \<Rightarrow> if c = CHR ''.'' then
                   (let (ds, r) = split_while is_digit cs in if ds = [] then None else Some (c # ds, r))
                 else Some ([], s)
     | [] \<Rightarrow> Some ([], []))"

definition num_exp :: "string \<Rightarrow> (string \<times> string) option" where
  "num_exp s = (case s of
       c # cs \<Rightarrow> if c = CHR ''e'' \<or> c = CHR ''E'' then
                   (let sg = (case cs of d # _ \<Rightarrow> if d = CHR ''+'' \<or> d = CHR ''-'' then [d] else []
                                | [] \<Rightarrow> []);
                        (ds, r) = split_while is_digit (drop (length sg) cs)
                    in if ds = [] then None else Some (c # sg @ ds, r))
                 else Some ([], s)
     | [] \<Rightarrow> Some ([], []))"

definition json_number :: "string \<Rightarrow> (string \<times> string) option" where
  "json_number s =
     (let sg = (case s of c # _ \<Rightarrow> if c = CHR ''-'' then [c] else [] | [] \<Rightarrow> [])
      in case num_int (drop (length sg) s) of
           None \<Rightarrow> None
         | Some (i, s1) \<Rightarrow> (case num_frac s1 of
             None \<Rightarrow> None
           | Some (f, s2) \<Rightarrow> (case num_exp s2 of
               None \<Rightarrow> None
             | Some (e, s3) \<Rightarrow> Some (sg @ i @ f @ e, s3))))"

definition json_literal :: "string \<Rightarrow> json \<Rightarrow> string \<Rightarrow> (json \<times> string) option" where
  "json_literal w v s = (if prefix w s then Some (v, drop (length w) s) else None)"

text \<open>
  A value with at most \<open>d\<close> levels of nesting.  The length tests make the
  recursion well-founded; they always hold (\<open>reader_shorter\<close> below).
\<close>

function (sequential)
  read_value :: "int \<Rightarrow> string \<Rightarrow> (json \<times> string) option" and
  read_elems :: "int \<Rightarrow> string \<Rightarrow> (json list \<times> string) option" and
  read_members :: "int \<Rightarrow> string \<Rightarrow> ((string \<times> json) list \<times> string) option"
where
  "read_value d s = (case skip_ws s of
       [] \<Rightarrow> None
     | c # cs \<Rightarrow>
         if c = CHR 0x22 then map_option (apfst JStr) (json_string cs)
         else if c = CHR ''{'' then
           (if d \<le> 0 then None
            else case skip_ws cs of
                [] \<Rightarrow> None
              | e # r \<Rightarrow> if e = CHR ''}'' then Some (JObj [], r)
                        else if length (e # r) < length s
                        then map_option (apfst JObj) (read_members (d - 1) (e # r)) else None)
         else if c = CHR ''['' then
           (if d \<le> 0 then None
            else case skip_ws cs of
                [] \<Rightarrow> None
              | e # r \<Rightarrow> if e = CHR '']'' then Some (JArr [], r)
                        else if length (e # r) < length s
                        then map_option (apfst JArr) (read_elems (d - 1) (e # r)) else None)
         else if c = CHR ''t'' then json_literal ''true'' (JBool True) (c # cs)
         else if c = CHR ''f'' then json_literal ''false'' (JBool False) (c # cs)
         else if c = CHR ''n'' then json_literal ''null'' JNull (c # cs)
         else map_option (apfst JNum) (json_number (c # cs)))"
| "read_elems d s = (case read_value d s of
       None \<Rightarrow> None
     | Some (v, r) \<Rightarrow> (case skip_ws r of
           [] \<Rightarrow> None
         | c # cs \<Rightarrow>
             if c = CHR '','' then
               (if length cs < length s then map_option (apfst ((#) v)) (read_elems d cs) else None)
             else if c = CHR '']'' then Some ([v], cs)
             else None))"
| "read_members d s = (case skip_ws s of
       [] \<Rightarrow> None
     | q # qs \<Rightarrow>
         if q \<noteq> CHR 0x22 then None
         else (case json_string qs of
             None \<Rightarrow> None
           | Some (k, r) \<Rightarrow> (case skip_ws r of
               [] \<Rightarrow> None
             | c # cs \<Rightarrow>
                 if c = CHR '':'' \<and> length cs < length s then
                   (case read_value d cs of
                      None \<Rightarrow> None
                    | Some (v, r1) \<Rightarrow> (case skip_ws r1 of
                          [] \<Rightarrow> None
                        | e # es \<Rightarrow>
                            if e = CHR '','' then
                              (if length es < length s
                               then map_option (apfst ((#) (k, v))) (read_members d es) else None)
                            else if e = CHR ''}'' then Some ([(k, v)], es)
                            else None))
                 else None)))"
  by pat_completeness auto
termination
  by (relation "measures [\<lambda>x. case x of Inl (d, s) \<Rightarrow> length s
                            | Inr (Inl (d, s)) \<Rightarrow> length s | Inr (Inr (d, s)) \<Rightarrow> length s,
                          \<lambda>x. case x of Inl (d, s) \<Rightarrow> 0 | Inr _ \<Rightarrow> 1]") auto

declare read_value.simps [simp del] read_elems.simps [simp del] read_members.simps [simp del]

text \<open>The decoder's limit on nested arrays and objects.\<close>

definition max_nesting_depth :: int where
  "max_nesting_depth = 10000"

text \<open>A complete document (\<open>Unmarshal\<close>, \<open>Valid\<close>) and the first value of a stream (\<open>Decode\<close>).\<close>

definition json_parse :: "string \<Rightarrow> json option" where
  "json_parse s = (case read_value max_nesting_depth s of
       Some (v, r) \<Rightarrow> if skip_ws r = [] then Some v else None
     | None \<Rightarrow> None)"

definition json_valid :: "string \<Rightarrow> bool" where
  "json_valid s \<longleftrightarrow> json_parse s \<noteq> None"

definition json_decode_first :: "string \<Rightarrow> json option" where
  "json_decode_first s = map_option fst (read_value max_nesting_depth s)"

section \<open>Printing\<close>

definition hex_digit :: "int \<Rightarrow> char" where
  "hex_digit n = (if n < 10 then char_of (48 + n) else char_of (87 + n))"

definition escape_ascii :: "char \<Rightarrow> string" where
  "escape_ascii c =
     (if c = CHR 0x22 \<or> c = CHR 0x5C then [CHR 0x5C, c]
      else if c = CHR 0x08 then [CHR 0x5C, CHR ''b'']
      else if c = CHR 0x0C then [CHR 0x5C, CHR ''f'']
      else if c = CHR 0x0A then [CHR 0x5C, CHR ''n'']
      else if c = CHR 0x0D then [CHR 0x5C, CHR ''r'']
      else if c = CHR 0x09 then [CHR 0x5C, CHR ''t'']
      else if byte c < 32 \<or> c = CHR ''<'' \<or> c = CHR ''>'' \<or> c = CHR 0x26 then
        [CHR 0x5C, CHR ''u'', CHR ''0'', CHR ''0'', hex_digit (byte c div 16), hex_digit (byte c mod 16)]
      else [c])"

text \<open>U+2028 and U+2029 are escaped too; they are recognised by their encodings.\<close>

fun escape :: "string \<Rightarrow> string" where
  "escape [] = []"
| "escape (c # cs) =
     (if is_ascii c then escape_ascii c @ escape cs
      else (let (r, w) = decode_rune (c # cs);
                u = (if (r, w) = (rune_error, 1) then [CHR 0x5C] @ ''ufffd''
                     else if take w (c # cs) = [CHR 0xE2, CHR 0x80, CHR 0xA8] then [CHR 0x5C] @ ''u2028''
                     else if take w (c # cs) = [CHR 0xE2, CHR 0x80, CHR 0xA9] then [CHR 0x5C] @ ''u2029''
                     else take w (c # cs))
            in u @ escape (drop (w - 1) cs)))"

definition json_quote :: "string \<Rightarrow> string" where
  "json_quote s = CHR 0x22 # escape s @ [CHR 0x22]"

fun json_print :: "json \<Rightarrow> string"
  and print_elems :: "json list \<Rightarrow> string"
  and print_members :: "(string \<times> json) list \<Rightarrow> string" where
  "json_print JNull = ''null''"
| "json_print (JBool b) = (if b then ''true'' else ''false'')"
| "json_print (JNum l) = l"
| "json_print (JStr s) = json_quote s"
| "json_print (JArr vs) = CHR ''['' # print_elems vs"
| "json_print (JObj ms) = CHR ''{'' # print_members ms"
| "print_elems [] = '']''"
| "print_elems [v] = json_print v @ '']''"
| "print_elems (v # vs) = json_print v @ '','' @ print_elems vs"
| "print_members [] = ''}''"
| "print_members [(k, v)] = json_quote k @ '':'' @ json_print v @ ''}''"
| "print_members ((k, v) # ms) = json_quote k @ '':'' @ json_print v @ '','' @ print_members ms"

section \<open>Reading back what was printed\<close>

subsection \<open>Strings\<close>

lemma hex_val_digit: "0 \<le> n \<Longrightarrow> n < 16 \<Longrightarrow> hex_val (hex_digit n) = Some n"
  by (auto simp: hex_val_def hex_digit_def)

lemma append_single: "(@) [c] = (#) c"
  by (rule ext) simp

lemma separator_escapes:
  "encode_rune 8232 = [CHR 0xE2, CHR 0x80, CHR 0xA8]" "encode_rune 8233 = [CHR 0xE2, CHR 0x80, CHR 0xA9]"
  "unicode_escape (''2028'' @ t) = Some (8232, 4)" "unicode_escape (''2029'' @ t) = Some (8233, 4)"
  "unicode_escape (''fffd'' @ t) = Some (rune_error, 4)"
  by (code_simp, code_simp) (simp_all add: unicode_escape_def hex4_def hex_val_def rune_error_def)

lemma hex4_00:
  assumes "is_ascii c"
  shows "hex4 (CHR ''0'' # CHR ''0'' # hex_digit (byte c div 16) # hex_digit (byte c mod 16) # s) = Some (byte c)"
proof -
  have "0 \<le> byte c div 16" "byte c div 16 < 16" using assms by (auto simp: pos_imp_zdiv_nonneg_iff)
  then have "hex_val (hex_digit (byte c div 16)) = Some (byte c div 16)"
    "hex_val (hex_digit (byte c mod 16)) = Some (byte c mod 16)"
    by (simp_all add: hex_val_digit)
  then show ?thesis by (simp add: hex4_def hex_val_def [of "CHR ''0''"])
qed

lemma json_string_escape_ascii:
  assumes "is_ascii c"
  shows "json_string (escape_ascii c @ t) = map_option (apfst ((#) c)) (json_string t)"
proof -
  have d: "decode_rune (c # t) = (byte c, 1)" using assms by simp
  have e: "encode_rune (byte c) = [c]" using assms by (simp add: encode_rune_def)
  have u: "unicode_escape (CHR ''0'' # CHR ''0'' # hex_digit (byte c div 16) # hex_digit (byte c mod 16) # t) = Some (byte c, 4)"
    using assms by (simp add: unicode_escape_def hex4_00)
  show ?thesis
    using assms by (auto simp: escape_ascii_def simple_escape_def u e d rune_error_def append_single)
qed

lemma json_string_escape: "json_string (escape s @ CHR 0x22 # rest) = Some (coerce_utf8 s, rest)"
proof (induction s rule: escape.induct)
  case (2 c cs)
  show ?case
  proof (cases "is_ascii c")
    case True
    then show ?thesis using 2 by (simp add: json_string_escape_ascii rune_error_def)
  next
    case False
    obtain r w where d: "decode_rune (c # cs) = (r, w)" by force
    then have IH: "json_string (escape (drop (w - 1) cs) @ CHR 0x22 # rest) = Some (coerce_utf8 (drop (w - 1) cs), rest)"
      using 2 False by simp
    let ?t = "escape (drop (w - 1) cs) @ CHR 0x22 # rest"
    consider "(r, w) = (rune_error, 1)" | "(r, w) \<noteq> (rune_error, 1)" "take w (c # cs) = [CHR 0xE2, CHR 0x80, CHR 0xA8]"
      | "(r, w) \<noteq> (rune_error, 1)" "take w (c # cs) = [CHR 0xE2, CHR 0x80, CHR 0xA9]"
      | "(r, w) \<noteq> (rune_error, 1)" "take w (c # cs) \<noteq> [CHR 0xE2, CHR 0x80, CHR 0xA8]" "take w (c # cs) \<noteq> [CHR 0xE2, CHR 0x80, CHR 0xA9]"
      by blast
    then show ?thesis
    proof cases
      case 1
      then show ?thesis using False d IH separator_escapes(5)
        by (simp add: coerce_utf8.simps(2))
    next
      case 2
      then show ?thesis using False d IH separator_escapes(1,3)
        by (auto simp: coerce_utf8.simps(2))
    next
      case 3
      then show ?thesis using False d IH separator_escapes(2,4)
        by (auto simp: coerce_utf8.simps(2))
    next
      case 4
      then obtain v where v: "take w (c # cs) = c # v" and w: "Suc (length v) = w" 
        using decode_rune_local(1,2) [OF d 4(1)] by (cases w) auto
      have "decode_rune (c # v @ ?t) = (r, w)"
        using decode_rune_local(3) [OF d 4(1), of ?t] v by simp
      moreover have "c \<noteq> CHR 0x22" "\<not> byte c < 32" "c \<noteq> CHR 0x5C" using False by auto
      ultimately have "json_string (c # v @ ?t) = map_option (apfst ((@) (c # v))) (json_string ?t)"
        using 4(1) w by auto
      then have "json_string (c # v @ ?t) = Some (c # v @ coerce_utf8 (drop (w - 1) cs), rest)"
        unfolding IH by simp
      moreover have "escape (c # cs) = c # v @ escape (drop (w - 1) cs)"
        using 4 False d unfolding v by (auto simp: v)
      moreover have "coerce_utf8 (c # cs) = c # v @ coerce_utf8 (drop (w - 1) cs)"
        using 4 d by (auto simp: v coerce_utf8.simps(2))
      ultimately show ?thesis by (simp only: append.simps append_assoc)
    qed
  qed
qed simp
subsection \<open>Numbers\<close>

text \<open>What may follow a number inside a printed document.\<close>

definition num_stop :: "string \<Rightarrow> bool" where
  "num_stop r \<longleftrightarrow> (case r of [] \<Rightarrow> True | c # _ \<Rightarrow> c \<in> {CHR '','', CHR '']'', CHR ''}'', CHR 0x0A})"

lemma nat_digits_no_zero: "0 < n \<Longrightarrow> hd (nat_digits n) \<noteq> CHR ''0''"
proof (induction n rule: nat_digits.induct)
  case (1 n)
  show ?case
  proof (cases "n < 10")
    case True
    have "n = 1 \<or> n = 2 \<or> n = 3 \<or> n = 4 \<or> n = 5 \<or> n = 6 \<or> n = 7 \<or> n = 8 \<or> n = 9"
      using 1 True by presburger
    with True show ?thesis by (subst nat_digits.simps) (auto simp: char_of_def)
  next
    case False
    then have "0 < n div 10" by presburger
    with False 1 nat_digits_correct [of "n div 10"] show ?thesis
      by (subst nat_digits.simps) (auto simp: hd_append)
  qed
qed

lemma split_while_digits:
  assumes "list_all is_digit ds" and "num_stop r"
  shows "split_while is_digit (ds @ r) = (ds, r)"
proof -
  have "\<forall>x\<in>set ds. is_digit x" using assms(1) by (simp add: list_all_iff)
  moreover have "r = [] \<or> \<not> is_digit (hd r)"
    using assms(2) by (auto simp: num_stop_def is_digit_def split: list.splits)
  ultimately show ?thesis
    by (cases r) (auto simp: split_while_def takeWhile_append2 dropWhile_append2)
qed

lemma json_number_nat_digits:
  assumes "0 \<le> n" and "num_stop r"
  shows "num_int (nat_digits n @ r) = Some (nat_digits n, r)"
proof -
  obtain c cs where c: "nat_digits n = c # cs" "is_digit c" using nat_digits_hd assms by blast
  show ?thesis
  proof (cases "n = 0")
    case True
    have "nat_digits 0 = ''0''" by code_simp
    then show ?thesis by (simp add: True num_int_def)
  next
    case False
    then have "c \<noteq> CHR ''0''" using nat_digits_no_zero [of n] assms c by auto
    with c split_while_digits [of "nat_digits n" r] nat_digits_correct [of n] assms show ?thesis
      by (auto simp: num_int_def)
  qed
qed

lemma json_number_itoa:
  assumes "num_stop r"
  shows "json_number (itoa n @ r) = Some (itoa n, r)"
proof -
  have fe: "num_frac r = Some ([], r)" "num_exp r = Some ([], r)"
    using assms by (auto simp: num_stop_def num_frac_def num_exp_def split: list.splits)
  show ?thesis
  proof (cases "n < 0")
    case True
    then show ?thesis using json_number_nat_digits [of "- n" r] assms fe
      by (simp add: json_number_def itoa_def)
  next
    case False
    then obtain c cs where c: "nat_digits n = c # cs" "is_digit c" using nat_digits_hd [of n] by auto
    then have "c \<noteq> CHR ''-''" by (auto simp: is_digit_def)
    with c False show ?thesis using json_number_nat_digits [of n r] assms fe
      by (auto simp: json_number_def itoa_def)
  qed
qed

subsection \<open>Documents\<close>

text \<open>
  Documents the program prints: integer numbers and at most \<open>d\<close> levels of nesting.
\<close>

fun printable :: "int \<Rightarrow> json \<Rightarrow> bool" where
  "printable d (JNum l) \<longleftrightarrow> (\<exists>n. l = itoa n)"
| "printable d (JArr vs) \<longleftrightarrow> 0 < d \<and> (\<forall>v \<in> set vs. printable (d - 1) v)"
| "printable d (JObj ms) \<longleftrightarrow> 0 < d \<and> (\<forall>(k, v) \<in> set ms. printable (d - 1) v)"
| "printable d _ \<longleftrightarrow> True"

fun coerce_json :: "json \<Rightarrow> json" where
  "coerce_json (JStr s) = JStr (coerce_utf8 s)"
| "coerce_json (JArr vs) = JArr (map coerce_json vs)"
| "coerce_json (JObj ms) = JObj (map (\<lambda>(k, v). (coerce_utf8 k, coerce_json v)) ms)"
| "coerce_json v = v"

lemma itoa_hd: "\<exists>c cs. itoa n = c # cs \<and> (c = CHR ''-'' \<or> is_digit c)"
  using nat_digits_hd [of n] by (auto simp: itoa_def)

lemma json_print_hd:
  assumes "printable d v"
  obtains c cs where "json_print v = c # cs" and "\<not> json_space c" and "c \<noteq> CHR '']''" and "c \<noteq> CHR ''}''"
proof -
  have "\<exists>c cs. json_print v = c # cs \<and> \<not> json_space c \<and> c \<noteq> CHR '']'' \<and> c \<noteq> CHR ''}''"
  proof (cases v)
    case (JNum l)
    then obtain n where "l = itoa n" using assms by auto
    with JNum itoa_hd [of n] show ?thesis by (auto simp: json_space_def is_digit_def)
  qed (auto simp: json_space_def json_quote_def)
  then show ?thesis using that by blast
qed

lemma skip_ws_stop: "\<not> json_space c \<Longrightarrow> skip_ws (c # cs) = c # cs"
  by (simp add: skip_ws_def)

lemma punctuation [simp]:
  "skip_ws (CHR '','' # s) = CHR '','' # s" "skip_ws (CHR '']'' # s) = CHR '']'' # s"
  "skip_ws (CHR ''}'' # s) = CHR ''}'' # s" "skip_ws (CHR '':'' # s) = CHR '':'' # s"
  "skip_ws (CHR 0x22 # s) = CHR 0x22 # s" "skip_ws (CHR ''['' # s) = CHR ''['' # s"
  "skip_ws (CHR ''{'' # s) = CHR ''{'' # s" "skip_ws [] = []"
  "num_stop (CHR '','' # s)" "num_stop (CHR '']'' # s)" "num_stop (CHR ''}'' # s)" "num_stop (CHR 0x0A # s)" "num_stop []"
  by (simp_all add: skip_ws_def json_space_def num_stop_def)

lemma read_print_num:
  assumes "num_stop r"
  shows "read_value d (itoa n @ r) = Some (JNum (itoa n), r)"
proof -
  obtain c cs where c: "itoa n = c # cs" "c = CHR ''-'' \<or> is_digit c" using itoa_hd by blast
  then have "\<not> json_space c" "c \<notin> {CHR 0x22, CHR ''{'', CHR ''['', CHR ''t'', CHR ''f'', CHR ''n''}"
    by (auto simp: json_space_def is_digit_def)
  with c json_number_itoa [OF assms, of n] show ?thesis
    by (simp add: read_value.simps skip_ws_stop)
qed

lemma read_print:
  "printable d v \<Longrightarrow> num_stop r \<Longrightarrow> read_value d (json_print v @ r) = Some (coerce_json v, r)"
  "vs \<noteq> [] \<Longrightarrow> \<forall>v \<in> set vs. printable d v \<Longrightarrow> 
     read_elems d (print_elems vs @ r) = Some (map coerce_json vs, r)"
  "ms \<noteq> [] \<Longrightarrow> \<forall>(k, v) \<in> set ms. printable d v \<Longrightarrow> 
     read_members d (print_members ms @ r) = Some (map (\<lambda>(k, v). (coerce_utf8 k, coerce_json v)) ms, r)"
proof (induction v and vs and ms arbitrary: d r and d r and d r rule: json_print_print_elems_print_members.induct)
  case (3 l) then show ?case by (auto simp: read_print_num)
next
  case (5 vs)
  show ?case
  proof (cases vs)
    case Nil then show ?thesis using 5 by (simp add: read_value.simps)
  next
    case (Cons v ws)
    obtain c cs where "json_print v = c # cs" "\<not> json_space c" "c \<noteq> CHR '']''"
      using 5 Cons by (auto elim: json_print_hd)
    then obtain cs' where p: "print_elems vs @ r = c # cs'" "skip_ws (c # cs') = c # cs'" "c \<noteq> CHR '']''"
      using Cons by (cases ws) (auto simp: skip_ws_stop)
    moreover have "read_elems (d - 1) (print_elems vs @ r) = Some (map coerce_json vs, r)"
      using 5 Cons by simp
    ultimately show ?thesis using 5(2) unfolding p(1) by (simp add: read_value.simps p)
  qed
next
  case (6 ms)
  show ?case
  proof (cases ms)
    case Nil then show ?thesis using 6 by (simp add: read_value.simps)
  next
    case (Cons m ws)
    then obtain cs' where p: "print_members ms @ r = CHR 0x22 # cs'"
      by (cases m; cases ws) (auto simp: json_quote_def)
    moreover have "read_members (d - 1) (print_members ms @ r) =
        Some (map (\<lambda>(k, v). (coerce_utf8 k, coerce_json v)) ms, r)"
      using 6 Cons by simp
    ultimately show ?thesis using 6(2) unfolding p by (simp add: read_value.simps p)
  qed
next
  case (8 v) then show ?case by (simp add: read_elems.simps)
next
  case (9 v v' vs) then show ?case by (simp add: read_elems.simps)
next
  case (11 k v) then show ?case by (simp add: read_members.simps json_quote_def json_string_escape)
next
  case (12 k v m ms) then show ?case by (simp add: read_members.simps json_quote_def json_string_escape)
qed (simp_all add: read_value.simps json_literal_def json_quote_def json_string_escape skip_ws_stop json_space_def)

lemma json_parse_print:
  assumes "printable max_nesting_depth v"
  shows "json_parse (json_print v) = Some (coerce_json v)"
  using read_print(1) [OF assms, of "[]"] by (simp add: json_parse_def)

text \<open>\<open>Encoder.Encode\<close> ends the value with a newline.\<close>

definition json_encode :: "json \<Rightarrow> string" where
  "json_encode v = json_print v @ [CHR 0x0A]"

lemma json_parse_encode:
  assumes "printable max_nesting_depth v"
  shows "json_parse (json_encode v) = Some (coerce_json v)"
  using read_print(1) [OF assms, of "[CHR 0x0A]"] by (simp add: json_parse_def json_encode_def skip_ws_def json_space_def)

subsection \<open>The reader consumes input\<close>

lemma map_option_apfst_Some:
  "map_option (apfst f) x = Some (a, r) \<longleftrightarrow> (\<exists>b. x = Some (b, r) \<and> a = f b)"
  by (cases x) auto

lemma length_skip_ws: "length (skip_ws s) \<le> length s"
  by (simp add: skip_ws_def length_dropWhile_le)

lemma skip_ws_Cons: "skip_ws s = c # cs \<Longrightarrow> length cs < length s"
  using length_skip_ws [of s] by simp

lemma json_string_shorter: "json_string s = Some (x, r) \<Longrightarrow> length r < length s"
proof (induction s arbitrary: x rule: length_induct)
  case (1 s)
  show ?case
  proof (cases s)
    case (Cons c cs)
    have IH: "json_string t = Some (y, r) \<Longrightarrow> length t \<le> length cs \<Longrightarrow> length r < length s" for t y
      using 1(1) Cons by (metis le_imp_less_Suc length_Cons less_trans)
    have "(\<exists>n y. json_string (drop n cs) = Some (y, r)) \<or> r = cs"
      using 1(2) unfolding Cons
      by (auto simp: map_option_apfst_Some Let_def split: if_splits list.splits option.splits prod.splits)
         (metis drop_Suc_Cons drop0)+
    then show ?thesis using IH Cons by (metis diff_le_self length_Cons length_drop lessI)
  qed (use 1 in simp)
qed

lemma json_number_shorter: "json_number s = Some (l, r) \<Longrightarrow> length r < length s"
proof -
  have d: "length (dropWhile P cs) < Suc (length cs)" for P and cs :: string
    by (simp add: le_imp_less_Suc length_dropWhile_le)
  have i: "num_int t = Some (i, t') \<Longrightarrow> length t' < length t" for t i t'
    by (auto simp: num_int_def split_while_def d split: list.splits if_splits)
  have f: "num_frac t = Some (i, t') \<Longrightarrow> length t' \<le> length t" for t i t'
    by (auto simp: num_frac_def split_while_def Let_def le_SucI length_dropWhile_le split: list.splits if_splits)
  have "length (dropWhile is_digit (drop n cs)) \<le> length cs" for n and cs :: string
    by (metis diff_le_self le_trans length_drop length_dropWhile_le)
  then have e: "num_exp t = Some (i, t') \<Longrightarrow> length t' \<le> length t" for t i t'
    by (auto simp: num_exp_def split_while_def Let_def le_SucI length_dropWhile_le split: list.splits if_splits)
  assume "json_number s = Some (l, r)"
  then obtain n i a g b x where "num_int (drop n s) = Some (i, a)" "num_frac a = Some (g, b)" "num_exp b = Some (x, r)"
    by (auto simp: json_number_def Let_def split: option.splits)
  with i f e have "length r < length (drop n s)" by (meson le_less_trans)
  then show ?thesis by simp
qed

lemma reader_shorter:
  "read_value d s = Some (v, r) \<Longrightarrow> length r < length s"
  "read_elems d s = Some (vs, r) \<Longrightarrow> length r < length s"
  "read_members d s = Some (ms, r) \<Longrightarrow> length r < length s"
proof (induction d s and d s and d s arbitrary: v r and vs r and ms r rule: read_value_read_elems_read_members.induct)
  case (1 d s)
  show ?case
  proof (cases "skip_ws s")
    case (Cons c cs)
    have l: "length cs < length s" "length (c # cs) \<le> length s" using Cons skip_ws_Cons length_skip_ws [of s] by auto
    show ?thesis
      using 1 Cons l
      by (fastforce simp: read_value.simps [of d s] map_option_apfst_Some json_literal_def
         split: if_splits list.splits dest: json_string_shorter json_number_shorter skip_ws_Cons)
  qed (use 1 in \<open>simp add: read_value.simps\<close>)
next
  case (2 d s)
  obtain w r1 where l: "read_value d s = Some (w, r1)"
    and c: "(\<exists>cs vs'. skip_ws r1 = CHR '','' # cs \<and> length cs < length s \<and> read_elems d cs = Some (vs', r)) \<or>
        skip_ws r1 = CHR '']'' # r"
    using "2.prems"
    by (auto simp: read_elems.simps [of d s] map_option_apfst_Some split: if_splits list.splits option.splits)
  have "length r1 < length s" using "2.IH"(1) l by simp
  moreover have "length r < length cs" if "skip_ws r1 = CHR '','' # cs" "length cs < length s" "read_elems d cs = Some (vs', r)" for cs vs'
    using "2.IH"(2) l that by simp
  ultimately show ?case using c skip_ws_Cons by fastforce
next
  case (3 d s)
  obtain qs k r0 cs w r1 where l: "skip_ws s = CHR 0x22 # qs" "json_string qs = Some (k, r0)"
      "skip_ws r0 = CHR '':'' # cs" "length cs < length s" "read_value d cs = Some (w, r1)"
    and c: "(\<exists>es ms'. skip_ws r1 = CHR '','' # es \<and> length es < length s \<and> read_members d es = Some (ms', r)) \<or>
        skip_ws r1 = CHR ''}'' # r"
    using "3.prems"
    by (auto simp: read_members.simps [of d s] map_option_apfst_Some split: if_splits list.splits option.splits)
  have "length r1 < length cs" using "3.IH"(1) l by simp
  moreover have "length r < length es" if "skip_ws r1 = CHR '','' # es" "length es < length s" "read_members d es = Some (ms', r)" for es ms'
    using "3.IH"(2) l that by simp
  ultimately show ?case using c l(4) skip_ws_Cons by fastforce
qed
declare json_string.simps(2) [simp del] escape.simps(2) [simp del]

end
