(* ===== verification/Go_Decode.thy ===== *)
theory Go_Decode
  imports Go_Json Complex_Main
begin

text \<open>
  \<open>json.Unmarshal\<close> into Go values: \<open>float64\<close> conversion of number literals,
  decoding into \<open>interface{}\<close>, \<open>string\<close>, pointers and structs.  A type mismatch
  anywhere makes \<open>Unmarshal\<close> return an error, so a decoder returns \<open>Inl JsonType\<close>
  for it; every caller discards the partially filled value in that case.
\<close>

section \<open>float64\<close>

text \<open>A finite \<open>float64\<close> is represented by its exact value.\<close>

type_synonym float64 = rat

function bit_length :: "int \<Rightarrow> int" where
  "bit_length n = (if n \<le> 0 then 0 else 1 + bit_length (n div 2))"
  by pat_completeness auto
termination
  by (relation "measure nat") auto

declare bit_length.simps [simp del]

definition pow2 :: "int \<Rightarrow> rat" where
  "pow2 k = (if 0 \<le> k then 2 ^ nat k else 1 / 2 ^ nat (- k))"

text \<open>The exponent \<open>k\<close> with \<open>2\<^sup>k \<le> a / b < 2\<^sup>k\<^sup>+\<^sup>1\<close>, for positive \<open>a\<close> and \<open>b\<close>.\<close>

definition floor_log2 :: "int \<Rightarrow> int \<Rightarrow> int" where
  "floor_log2 a b =
     (let k = bit_length a - bit_length b
      in if pow2 k * of_int b \<le> of_int a then k else k - 1)"

definition round_half_even :: "rat \<Rightarrow> int" where
  "round_half_even q =
     (let f = \<lfloor>q\<rfloor>; d = q - of_int f
      in if d < 1 / 2 then f else if 1 / 2 < d then f + 1 else if even f then f else f + 1)"

text \<open>
  Round \<open>a / b\<close> (\<open>a \<ge> 0\<close>, \<open>b > 0\<close>) to the nearest \<open>float64\<close>, ties to even;
  \<open>None\<close> is overflow.
\<close>

definition round_float64 :: "int \<Rightarrow> int \<Rightarrow> float64 option" where
  "round_float64 a b =
     (if a = 0 then Some 0
      else let e = max (floor_log2 a b - 52) (- 1074);
               v = of_int (round_half_even (of_int a / (of_int b * pow2 e))) * pow2 e
           in if pow2 1024 \<le> v then None else Some v)"

text \<open>The value of the floating-point constant \<open>a / b\<close>.\<close>

definition float_const :: "int \<Rightarrow> int \<Rightarrow> float64" where
  "float_const a b = (case round_float64 a b of None \<Rightarrow> 0 | Some v \<Rightarrow> v)"

text \<open>The parts of a number literal: sign, digits before and after the point, exponent.\<close>

definition lit_exp :: "string \<Rightarrow> int" where
  "lit_exp s = (case s of
       [] \<Rightarrow> 0
     | _ # cs \<Rightarrow> (case cs of
           c # ds \<Rightarrow> if c = CHR ''-'' then - digits_val ds
                     else if c = CHR ''+'' then digits_val ds else digits_val cs
         | [] \<Rightarrow> 0))"

definition parse_float64 :: "string \<Rightarrow> float64 option" where
  "parse_float64 l =
     (let neg = prefix ''-'' l;
          s = (if neg then tl l else l);
          (ip, s1) = split_while is_digit s;
          (fp, s2) = (case s1 of c # cs \<Rightarrow> if c = CHR ''.'' then split_while is_digit cs else ([], s1)
                        | [] \<Rightarrow> ([], []));
          m = digits_val (ip @ fp);
          e = lit_exp s2 - int (length fp);
          r = (if 0 \<le> e then round_float64 (m * 10 ^ nat e) 1 else round_float64 m (10 ^ nat (- e)))
      in map_option (\<lambda>v. if neg then - v else v) r)"

text \<open>
  The conversion \<open>int(v)\<close> of a \<open>float64\<close>: truncation towards zero.  The language leaves
  the result for a value outside \<open>int64\<close> to the platform: parameter \<open>oob\<close>.
\<close>

definition truncate :: "rat \<Rightarrow> int" where
  "truncate q = (if 0 \<le> q then \<lfloor>q\<rfloor> else \<lceil>q\<rceil>)"

definition float_to_int :: "(rat \<Rightarrow> 64 word) \<Rightarrow> float64 \<Rightarrow> int" where
  "float_to_int oob v = (if in_int64 (truncate v) then truncate v else sint (oob v))"

lemma in_int64_sint: "in_int64 (sint (w :: 64 word))"
  using sint_range_size [of w] by (simp add: in_int64_def word_size)

lemma in_int64_float_to_int: "in_int64 (float_to_int oob v)"
  by (simp add: float_to_int_def in_int64_sint)

subsection \<open>Integers as float64\<close>

lemma bit_length_bounds:
  "0 < n \<Longrightarrow> 0 < bit_length n \<and> 2 ^ nat (bit_length n - 1) \<le> n \<and> n < 2 ^ nat (bit_length n)"
proof (induction n rule: bit_length.induct)
  case (1 n)
  show ?case
  proof (cases "n = 1")
    case True
    have "bit_length 0 = 0" by (simp add: bit_length.simps)
    then show ?thesis using True by (simp add: bit_length.simps [of 1])
  next
    case False
    let ?k = "bit_length (n div 2)"
    have IH: "0 < ?k" "2 ^ nat (?k - 1) \<le> n div 2" "n div 2 < 2 ^ nat ?k"
      using 1 False by auto
    have "bit_length n = 1 + ?k" using 1 by (simp add: bit_length.simps [of n])
    moreover have "nat (1 + ?k) = Suc (nat ?k)" "nat ?k = Suc (nat (?k - 1))" using IH(1) by linarith+
    moreover have "2 * x \<le> n" if "x \<le> n div 2" for x using that by linarith
    moreover have "n < 2 * x" if "n div 2 < x" for x using that by linarith
    ultimately show ?thesis using IH by (metis add_diff_cancel_left' add_pos_pos power_Suc zero_less_one)
  qed
qed

lemma bit_length_one: "bit_length 1 = 1"
  by code_simp

lemma floor_log2_one: "0 < n \<Longrightarrow> floor_log2 n 1 = bit_length n - 1"
  using bit_length_bounds [of n]
  by (simp add: floor_log2_def pow2_def Let_def bit_length_one)

lemma round_half_even_int [simp]: "round_half_even (of_int k) = k"
  by (simp add: round_half_even_def)

lemma round_half_even_ge: "\<lfloor>q\<rfloor> \<le> round_half_even q"
  by (simp add: round_half_even_def Let_def)

lemma round_half_even_le: "round_half_even q \<le> \<lfloor>q\<rfloor> + 1"
  by (simp add: round_half_even_def Let_def)

lemma pow2_pos: "0 < pow2 k"
  by (simp add: pow2_def)

lemma pow2_1024: "pow2 1024 = 2 ^ 1024"
  by (simp add: pow2_def)

text \<open>Integers below \<open>2\<^sup>5\<^sup>3\<close> are exact, larger ones stay at or above it.\<close>

lemma round_float64_exact:
  assumes "0 \<le> n" and "n < 2 ^ 53"
  shows "round_float64 n 1 = Some (of_int n)"
proof (cases "n = 0")
  case False
  then have n: "0 < n" using assms by simp
  let ?k = "bit_length n"
  have b: "0 < ?k" "2 ^ nat (?k - 1) \<le> n" using bit_length_bounds [OF n] by auto
  have k: "?k \<le> 53"
  proof (rule ccontr)
    assume "\<not> ?k \<le> 53"
    then have "(2::int) ^ 53 \<le> 2 ^ nat (?k - 1)" by (intro power_increasing) auto
    then show False using b assms by simp
  qed
  define j where "j = nat (53 - ?k)"
  have e: "max (floor_log2 n 1 - 52) (- 1074) = - int j"
    using k b(1) by (simp add: floor_log2_one [OF n] j_def)
  have p: "pow2 (- int j) = 1 / 2 ^ j" by (cases "j = 0") (simp_all add: pow2_def)
  have "(of_int n :: rat) / (of_int 1 * pow2 (- int j)) = of_int (n * 2 ^ j)" by (simp add: p)
  then have r: "round_half_even (of_int n / (of_int 1 * pow2 (- int j))) = n * 2 ^ j"
    by (metis round_half_even_int)
  have "(of_int n :: rat) < of_int (2 ^ 53)" using assms(2) by (simp only: of_int_less_iff)
  also have "\<dots> \<le> 2 ^ 1024" by simp
  finally have "\<not> pow2 1024 \<le> (of_int n :: rat)" by (simp add: pow2_1024)
  then show ?thesis using n unfolding round_float64_def Let_def e r by (simp add: p)
qed (simp add: round_float64_def)

lemma round_float64_large:
  assumes "2 ^ 53 \<le> n" and "n \<le> 2 ^ 63"
  shows "\<exists>v. round_float64 n 1 = Some (of_int v) \<and> 2 ^ 53 \<le> v"
proof -
  have n: "0 < n" using assms by simp
  let ?k = "bit_length n"
  have b: "2 ^ nat (?k - 1) \<le> n" "n < 2 ^ nat ?k" "0 < ?k" using bit_length_bounds [OF n] by auto
  have k: "54 \<le> ?k"
  proof (rule ccontr)
    assume "\<not> 54 \<le> ?k"
    then have "(2::int) ^ nat ?k \<le> 2 ^ 53" by (intro power_increasing) auto
    then show False using b assms by simp
  qed
  define j where "j = nat (?k - 53)"
  have e: "max (floor_log2 n 1 - 52) (- 1074) = int j"
    using k by (simp add: floor_log2_one [OF n] j_def)
  let ?r = "round_half_even (of_int n / (of_int 1 * pow2 (int j)))"
  have q: "(of_int n :: rat) / (of_int 1 * pow2 (int j)) = of_int n / of_int (2 ^ j)" by (simp add: pow2_def)
  have fl: "\<lfloor>(of_int n :: rat) / (of_int 1 * pow2 (int j))\<rfloor> = n div 2 ^ j"
    unfolding q by (rule floor_divide_of_int_eq)
  have j: "nat (?k - 1) = 52 + j" using k by (simp add: j_def)
  have "2 ^ 52 * 2 ^ j \<le> n" using b(1) unfolding j by (simp add: power_add)
  from zdiv_mono1 [OF this, of "2 ^ j"] have "2 ^ 52 \<le> n div 2 ^ j" by simp
  then have r1: "2 ^ 52 \<le> ?r" using round_half_even_ge fl by (metis order_trans)
  have "n div 2 ^ j \<le> n" using n by (intro int_div_le_self) 
  then have r2: "?r \<le> 2 ^ 63 + 1"
    using assms(2) round_half_even_le [of "of_int n / (of_int 1 * pow2 (int j))"] unfolding fl by linarith
  have k2: "j \<le> 11"
  proof (rule ccontr)
    assume "\<not> j \<le> 11"
    then have "(2::int) ^ 64 \<le> 2 ^ nat (?k - 1)" unfolding j by (intro power_increasing) auto
    then show False using b assms by simp
  qed
  have j1: "1 \<le> j" using k by (simp add: j_def)
  have v: "of_int ?r * pow2 (int j) = (of_int (?r * 2 ^ j) :: rat)" by (simp add: pow2_def)
  have "?r * 2 ^ j \<le> (2 ^ 63 + 1) * 2 ^ 11"
    using r2 r1 k2 by (intro mult_mono power_increasing) auto
  also have "\<dots> < 2 ^ 1024" by simp
  finally have "(of_int (?r * 2 ^ j) :: rat) < of_int (2 ^ 1024)" by (simp only: of_int_less_iff)
  then have "\<not> pow2 1024 \<le> (of_int (?r * 2 ^ j) :: rat)" by (simp add: pow2_1024)
  moreover have "2 ^ 52 * 2 ^ 1 \<le> ?r * 2 ^ j"
    using r1 j1 by (intro mult_mono power_increasing) auto
  ultimately show ?thesis using n unfolding round_float64_def Let_def e v
    by (intro exI [of _ "?r * 2 ^ j"]) simp
qed

text \<open>The \<open>float64\<close> of a printed \<open>int64\<close>: integral, and in a small range exactly when the integer is.\<close>

lemma parse_float64_itoa:
  assumes "in_int64 n"
  shows "\<exists>v. parse_float64 (itoa n) = Some (of_int v) \<and> (\<bar>n\<bar> < 2 ^ 53 \<longrightarrow> v = n) \<and>
    (2 ^ 53 \<le> n \<longrightarrow> 2 ^ 53 \<le> v) \<and> (n \<le> - (2 ^ 53) \<longrightarrow> v \<le> - (2 ^ 53))"
proof -
  have d: "parse_float64 (itoa n) =
      map_option (\<lambda>v. if n < 0 then - v else v) (round_float64 \<bar>n\<bar> 1)"
  proof -
    obtain c cs where c: "nat_digits \<bar>n\<bar> = c # cs" "is_digit c" using nat_digits_hd [of "\<bar>n\<bar>"] by auto
    have "c \<noteq> CHR ''-''" using c(2) by (auto simp: is_digit_def)
    moreover have "split_while is_digit (nat_digits \<bar>n\<bar>) = (nat_digits \<bar>n\<bar>, [])"
      using split_while_digits [of "nat_digits \<bar>n\<bar>" "[]"] nat_digits_correct [of "\<bar>n\<bar>"] by simp
    moreover have "digits_val (nat_digits \<bar>n\<bar>) = \<bar>n\<bar>" using nat_digits_correct [of "\<bar>n\<bar>"] by simp
    ultimately show ?thesis using c
      by (cases "n < 0") (simp_all add: parse_float64_def itoa_def lit_exp_def)
  qed
  have r: "\<bar>n\<bar> \<le> 2 ^ 63" using assms by (auto simp: in_int64_def)
  show ?thesis
  proof (cases "\<bar>n\<bar> < 2 ^ 53")
    case True
    then have "parse_float64 (itoa n) = Some (of_int n)"
      unfolding d using round_float64_exact [of "\<bar>n\<bar>"] by (cases "n < 0") auto
    then show ?thesis using True by auto
  next
    case False
    then obtain v where v: "round_float64 \<bar>n\<bar> 1 = Some (of_int v)" "2 ^ 53 \<le> v"
      using round_float64_large [of "\<bar>n\<bar>"] r by auto
    show ?thesis
    proof (cases "n < 0")
      case True
      then show ?thesis unfolding d v(1) using v(2) False by (intro exI [of _ "- v"]) auto
    next
      case nonneg: False
      then show ?thesis unfolding d v(1) using v(2) False by (intro exI [of _ v]) auto
    qed
  qed
qed

section \<open>Decoding\<close>

text \<open>Values of type \<open>interface{}\<close> that \<open>Unmarshal\<close> produces.\<close>

datatype any =
    ANil
  | ABool bool
  | AFloat float64
  | AString string
  | ASlice "any list"
  | AMap "(string \<times> any) list"

fun dec_any :: "json \<Rightarrow> any result" 
  and dec_any_list :: "json list \<Rightarrow> any list result"
  and dec_any_map :: "(string \<times> json) list \<Rightarrow> (string \<times> any) list result" where
  "dec_any JNull = Inr ANil"
| "dec_any (JBool b) = Inr (ABool b)"
| "dec_any (JNum l) = (case parse_float64 l of None \<Rightarrow> Inl JsonType | Some v \<Rightarrow> Inr (AFloat v))"
| "dec_any (JStr s) = Inr (AString s)"
| "dec_any (JArr vs) = (case dec_any_list vs of Inl e \<Rightarrow> Inl e | Inr xs \<Rightarrow> Inr (ASlice xs))"
| "dec_any (JObj ms) = (case dec_any_map ms of Inl e \<Rightarrow> Inl e | Inr xs \<Rightarrow> Inr (AMap xs))"
| "dec_any_list [] = Inr []"
| "dec_any_list (v # vs) =
     (case dec_any v of Inl e \<Rightarrow> Inl e
      | Inr x \<Rightarrow> (case dec_any_list vs of Inl e \<Rightarrow> Inl e | Inr xs \<Rightarrow> Inr (x # xs)))"
| "dec_any_map [] = Inr []"
| "dec_any_map ((k, v) # ms) =
     (case dec_any v of Inl e \<Rightarrow> Inl e
      | Inr x \<Rightarrow> (case dec_any_map ms of Inl e \<Rightarrow> Inl e | Inr xs \<Rightarrow> Inr ((k, x) # xs)))"

text \<open>A member of a decoded object; a later duplicate overrides an earlier one.\<close>

definition any_member :: "string \<Rightarrow> (string \<times> any) list \<Rightarrow> any option" where
  "any_member k ms = map_of (rev ms) k"

text \<open>
  Keys match field names exactly or else up to case folding, in which U+017F folds to
  \<open>S\<close> and U+212A to \<open>K\<close> (the only runes beyond ASCII that fold to ASCII).
\<close>

fun fold_key :: "string \<Rightarrow> string" where
  "fold_key [] = []"
| "fold_key (c # cs) =
     (if prefix [CHR 0xC5, CHR 0xBF] (c # cs) then CHR ''S'' # fold_key (drop 1 cs)
      else if prefix [CHR 0xE2, CHR 0x84, CHR 0xAA] (c # cs) then CHR ''K'' # fold_key (drop 2 cs)
      else ascii_upper c # fold_key cs)"

definition match_field :: "string list \<Rightarrow> string \<Rightarrow> string option" where
  "match_field names k =
     (if k \<in> set names then Some k else find (\<lambda>n. fold_key n = fold_key k) names)"

definition dec_string :: "json \<Rightarrow> string \<Rightarrow> string result" where
  "dec_string v old = (case v of JStr s \<Rightarrow> Inr s | JNull \<Rightarrow> Inr old | _ \<Rightarrow> Inl JsonType)"

definition dec_string_ptr :: "json \<Rightarrow> string option result" where
  "dec_string_ptr v = (case v of JStr s \<Rightarrow> Inr (Some s) | JNull \<Rightarrow> Inr None | _ \<Rightarrow> Inl JsonType)"

text \<open>
  A struct: members are stored in order by \<open>put\<close>, which receives the name of the
  matched field; \<open>null\<close> leaves the struct as it is.
\<close>

fun dec_members ::
  "string list \<Rightarrow> (string \<Rightarrow> json \<Rightarrow> 's \<Rightarrow> 's result) \<Rightarrow> (string \<times> json) list \<Rightarrow> 's \<Rightarrow> 's result" where
  "dec_members names put [] st = Inr st"
| "dec_members names put ((k, v) # ms) st =
     (case match_field names k of
        None \<Rightarrow> dec_members names put ms st
      | Some n \<Rightarrow> (case put n v st of
            Inl e \<Rightarrow> Inl e
          | Inr st' \<Rightarrow> dec_members names put ms st'))"

definition dec_struct ::
  "string list \<Rightarrow> (string \<Rightarrow> json \<Rightarrow> 's \<Rightarrow> 's result) \<Rightarrow> json \<Rightarrow> 's \<Rightarrow> 's result" where
  "dec_struct names put v st = (case v of
       JNull \<Rightarrow> Inr st
     | JObj ms \<Rightarrow> dec_members names put ms st
     | _ \<Rightarrow> Inl JsonType)"

text \<open>A pointer to a struct: \<open>null\<close> clears it, an object fills the pointee (new or old).\<close>

definition dec_struct_ptr ::
  "string list \<Rightarrow> (string \<Rightarrow> json \<Rightarrow> 's \<Rightarrow> 's result) \<Rightarrow> 's \<Rightarrow> json \<Rightarrow> 's option \<Rightarrow> 's option result" where
  "dec_struct_ptr names put zero v old = (case v of
       JNull \<Rightarrow> Inr None
     | _ \<Rightarrow> (case dec_struct names put v (case old of None \<Rightarrow> zero | Some s \<Rightarrow> s) of
                Inl e \<Rightarrow> Inl e | Inr s \<Rightarrow> Inr (Some s)))"

text \<open>Store the result of a decoder in a field.\<close>

definition store :: "('a \<Rightarrow> 's) \<Rightarrow> 'a result \<Rightarrow> 's result" where
  "store upd r = (case r of Inl e \<Rightarrow> Inl e | Inr x \<Rightarrow> Inr (upd x))"

lemma any_member_Nil [simp]: "any_member k [] = None"
  by (simp add: any_member_def)

lemma any_member_Cons [simp]:
  "any_member k ((k', v) # ms) = (case any_member k ms of Some x \<Rightarrow> Some x | None \<Rightarrow> if k' = k then Some v else None)"
  by (simp add: any_member_def map_add_def split: option.splits)

end
