(* ===== verification/Models.thy ===== *)
theory Models
  imports Go_Decode
begin

text \<open>
  The structs of \<open>internal/models/event.go\<close> as records (field prefixes tell the
  structs apart; a Go pointer is an \<open>option\<close>), and their JSON forms as the struct
  tags prescribe them: \<open>\<dots>_json\<close> is what \<open>json.Marshal\<close> prints, \<open>dec_raw_event\<close>
  what \<open>json.Unmarshal\<close> stores.
\<close>

section \<open>Structs\<close>

record RawEvent =
  re_EventID :: string
  re_ReceivedAt :: string
  re_Format :: string
  re_Source :: string
  re_Payload :: string

record DetectionResult =
  dr_Format :: string
  dr_SourceType :: string
  dr_Confidence :: float64
  dr_Reason :: string

type_synonym DriftStatus = string

definition DriftStatusStable :: DriftStatus where
  "DriftStatusStable = ''stable''"

definition DriftStatusMinorDrift :: DriftStatus where
  "DriftStatusMinorDrift = ''minor_drift''"

definition DriftStatusMajorDrift :: DriftStatus where
  "DriftStatusMajorDrift = ''major_drift''"

definition DriftStatusUnknown :: DriftStatus where
  "DriftStatusUnknown = ''unknown''"

record DriftResult =
  df_Status :: DriftStatus
  df_Confidence :: float64
  df_Message :: string
  df_SuggestedAction :: string

record SourceInfo =
  si_Type :: string
  si_Vendor :: string
  si_Product :: string
  si_Identifier :: string

record EventInfo =
  ei_Category :: string
  ei_Action :: string
  ei_Severity :: string

record NetworkInfo =
  ni_SrcIP :: string
  ni_SrcPort :: "int option"
  ni_DstIP :: string
  ni_DstPort :: "int option"
  ni_Protocol :: string

record UserInfo =
  ui_Username :: "string option"

record RawInfo =
  ri_Format :: string
  ri_Message :: string

record MetadataInfo =
  mi_ParserVersion :: string
  mi_IngestedAt :: string

record ParsedEvent =
  pe_Timestamp :: string
  pe_Source :: SourceInfo
  pe_Event :: EventInfo
  pe_Network :: "NetworkInfo option"
  pe_User :: "UserInfo option"

record UniversalEvent =
  ue_EventID :: string
  ue_SchemaVersion :: string
  ue_Timestamp :: string
  ue_Source :: SourceInfo
  ue_Event :: EventInfo
  ue_Network :: "NetworkInfo option"
  ue_User :: "UserInfo option"
  ue_Raw :: RawInfo
  ue_Metadata :: MetadataInfo

record WorkerEvent =
  we_EventID :: string
  we_SchemaVersion :: string
  we_Event :: UniversalEvent
  we_Metadata :: "(string \<times> any) list"

section \<open>JSON forms\<close>

text \<open>A field tagged \<open>omitempty\<close> is left out when it holds its zero value.\<close>

definition omit_empty :: "string \<Rightarrow> string \<Rightarrow> (string \<times> json) list" where
  "omit_empty n s = (if s = [] then [] else [(n, JStr s)])"

definition omit_nil :: "string \<Rightarrow> ('a \<Rightarrow> json) \<Rightarrow> 'a option \<Rightarrow> (string \<times> json) list" where
  "omit_nil n f x = (case x of None \<Rightarrow> [] | Some y \<Rightarrow> [(n, f y)])"

definition int_json :: "int \<Rightarrow> json" where
  "int_json n = JNum (itoa n)"

definition raw_event_json :: "RawEvent \<Rightarrow> json" where
  "raw_event_json e = JObj
     ([(''event_id'', JStr (re_EventID e)), (''received_at'', JStr (re_ReceivedAt e))] @
      omit_empty ''format'' (re_Format e) @ omit_empty ''source'' (re_Source e) @
      [(''payload'', JStr (re_Payload e))])"

definition source_json :: "SourceInfo \<Rightarrow> json" where
  "source_json s = JObj
     (omit_empty ''type'' (si_Type s) @ omit_empty ''vendor'' (si_Vendor s) @
      omit_empty ''product'' (si_Product s) @ omit_empty ''identifier'' (si_Identifier s))"

definition event_json :: "EventInfo \<Rightarrow> json" where
  "event_json e = JObj
     (omit_empty ''category'' (ei_Category e) @ omit_empty ''action'' (ei_Action e) @
      omit_empty ''severity'' (ei_Severity e))"

definition network_json :: "NetworkInfo \<Rightarrow> json" where
  "network_json n = JObj
     (omit_empty ''src_ip'' (ni_SrcIP n) @ omit_nil ''src_port'' int_json (ni_SrcPort n) @
      omit_empty ''dst_ip'' (ni_DstIP n) @ omit_nil ''dst_port'' int_json (ni_DstPort n) @
      omit_empty ''protocol'' (ni_Protocol n))"

definition user_json :: "UserInfo \<Rightarrow> json" where
  "user_json u = JObj
     [(''username'', case ui_Username u of None \<Rightarrow> JNull | Some s \<Rightarrow> JStr s)]"

definition raw_info_json :: "RawInfo \<Rightarrow> json" where
  "raw_info_json r = JObj [(''format'', JStr (ri_Format r)), (''message'', JStr (ri_Message r))]"

definition metadata_json :: "MetadataInfo \<Rightarrow> json" where
  "metadata_json m = JObj
     [(''parser_version'', JStr (mi_ParserVersion m)), (''ingested_at'', JStr (mi_IngestedAt m))]"

definition universal_event_json :: "UniversalEvent \<Rightarrow> json" where
  "universal_event_json e = JObj
     ([(''event_id'', JStr (ue_EventID e)), (''schema_version'', JStr (ue_SchemaVersion e)),
       (''timestamp'', JStr (ue_Timestamp e)), (''source'', source_json (ue_Source e)),
       (''event'', event_json (ue_Event e))] @
      omit_nil ''network'' network_json (ue_Network e) @ omit_nil ''user'' user_json (ue_User e) @
      [(''raw'', raw_info_json (ue_Raw e)), (''metadata'', metadata_json (ue_Metadata e))])"

definition zero_raw_event :: RawEvent where
  "zero_raw_event =
     \<lparr>re_EventID = [], re_ReceivedAt = [], re_Format = [], re_Source = [], re_Payload = []\<rparr>"

definition raw_event_fields :: "string list" where
  "raw_event_fields = [''event_id'', ''received_at'', ''format'', ''source'', ''payload'']"

definition set_raw_event_field :: "string \<Rightarrow> json \<Rightarrow> RawEvent \<Rightarrow> RawEvent result" where
  "set_raw_event_field n v e =
     (if n = ''event_id'' then store (\<lambda>x. e\<lparr>re_EventID := x\<rparr>) (dec_string v (re_EventID e))
      else if n = ''received_at'' then store (\<lambda>x. e\<lparr>re_ReceivedAt := x\<rparr>) (dec_string v (re_ReceivedAt e))
      else if n = ''format'' then store (\<lambda>x. e\<lparr>re_Format := x\<rparr>) (dec_string v (re_Format e))
      else if n = ''source'' then store (\<lambda>x. e\<lparr>re_Source := x\<rparr>) (dec_string v (re_Source e))
      else store (\<lambda>x. e\<lparr>re_Payload := x\<rparr>) (dec_string v (re_Payload e)))"

text \<open>\<open>json.Unmarshal(data, &rawEvent)\<close> into a zero \<open>RawEvent\<close>.\<close>

definition dec_raw_event :: "string \<Rightarrow> RawEvent result" where
  "dec_raw_event data = (case json_parse data of
       None \<Rightarrow> Inl JsonSyntax
     | Some v \<Rightarrow> dec_struct raw_event_fields set_raw_event_field v zero_raw_event)"

section \<open>Round trip\<close>

definition coerce_raw_event :: "RawEvent \<Rightarrow> RawEvent" where
  "coerce_raw_event e =
     \<lparr>re_EventID = coerce_utf8 (re_EventID e), re_ReceivedAt = coerce_utf8 (re_ReceivedAt e),
      re_Format = coerce_utf8 (re_Format e), re_Source = coerce_utf8 (re_Source e),
      re_Payload = coerce_utf8 (re_Payload e)\<rparr>"

definition valid_raw_event :: "RawEvent \<Rightarrow> bool" where
  "valid_raw_event e \<longleftrightarrow>
     valid_utf8 (re_EventID e) \<and> valid_utf8 (re_ReceivedAt e) \<and> valid_utf8 (re_Format e) \<and>
     valid_utf8 (re_Source e) \<and> valid_utf8 (re_Payload e)"

lemma coerce_valid_raw_event [simp]: "valid_raw_event e \<Longrightarrow> coerce_raw_event e = e"
  by (cases e) (simp add: coerce_raw_event_def valid_raw_event_def)

lemma printable_raw_event: "printable max_nesting_depth (raw_event_json e)"
  by (auto simp: raw_event_json_def omit_empty_def max_nesting_depth_def)

lemma dec_members_omit_empty:
  assumes "match_field names n = Some n" and "coerce_utf8 n = n"
  shows "dec_members names put (map (\<lambda>(k, v). (coerce_utf8 k, coerce_json v)) (omit_empty n s) @ ms) st =
    (if s = [] then dec_members names put ms st
     else case put n (JStr (coerce_utf8 s)) st of Inl e \<Rightarrow> Inl e | Inr st' \<Rightarrow> dec_members names put ms st')"
  using assms by (simp add: omit_empty_def)

lemma match_raw_event_fields:
  "n \<in> set raw_event_fields \<Longrightarrow> match_field raw_event_fields n = Some n"
  by (simp add: match_field_def)

lemma raw_event_field_members [simp]:
  "''event_id'' \<in> set raw_event_fields" "''received_at'' \<in> set raw_event_fields"
  "''format'' \<in> set raw_event_fields" "''source'' \<in> set raw_event_fields"
  "''payload'' \<in> set raw_event_fields"
  by (simp_all add: raw_event_fields_def)

lemma set_raw_event_field_simps [simp]:
  "set_raw_event_field ''event_id'' (JStr x) e = Inr (e\<lparr>re_EventID := x\<rparr>)"
  "set_raw_event_field ''received_at'' (JStr x) e = Inr (e\<lparr>re_ReceivedAt := x\<rparr>)"
  "set_raw_event_field ''format'' (JStr x) e = Inr (e\<lparr>re_Format := x\<rparr>)"
  "set_raw_event_field ''source'' (JStr x) e = Inr (e\<lparr>re_Source := x\<rparr>)"
  "set_raw_event_field ''payload'' (JStr x) e = Inr (e\<lparr>re_Payload := x\<rparr>)"
  by (simp_all add: set_raw_event_field_def store_def dec_string_def)

text \<open>Reading a printed raw event gives it back, up to repair of ill-formed UTF-8.\<close>

lemma dec_raw_event_print: "dec_raw_event (json_print (raw_event_json e)) = Inr (coerce_raw_event e)"
  unfolding dec_raw_event_def json_parse_print [OF printable_raw_event]
  by (simp add: raw_event_json_def dec_struct_def dec_members_omit_empty match_raw_event_fields
      zero_raw_event_def coerce_raw_event_def)

section \<open>Printable documents\<close>

lemma printable_int [simp]: "printable d (int_json n)"
  by (auto simp: int_json_def)

lemma printable_structs [simp]:
  "0 < d \<Longrightarrow> printable d (source_json s)" "0 < d \<Longrightarrow> printable d (event_json e)"
  "0 < d \<Longrightarrow> printable d (network_json n)" "0 < d \<Longrightarrow> printable d (user_json x)"
  "0 < d \<Longrightarrow> printable d (raw_info_json r)" "0 < d \<Longrightarrow> printable d (metadata_json m)"
  by (auto simp: source_json_def event_json_def network_json_def user_json_def raw_info_json_def
      metadata_json_def omit_empty_def omit_nil_def split: option.splits)

lemma printable_universal_event: "printable max_nesting_depth (universal_event_json u)"
  by (auto simp: universal_event_json_def omit_nil_def max_nesting_depth_def split: option.splits)

end
