(* ===== verification/Redis_Client.thy ===== *)
theory Redis_Client
  imports Go_Text
begin

text \<open>
  The calls the program makes on the go-redis client, which is a parameter: a record of
  functions of the world.  The locale \<open>redis_keys\<close> states what the program relies on for the
  string keys of a reachable server; it is interpreted on a keyspace with expiry times.
\<close>

text \<open>A duration in nanoseconds (\<open>time.Duration\<close>).\<close>

type_synonym duration = int

text \<open>A stream entry as the client returns it; a value is a string or something else.\<close>

datatype redis_value = RString string | ROther

record XMessage =
  xm_ID :: string
  xm_Values :: "string \<rightharpoonup> redis_value"

record XAddArgs =
  xa_Stream :: string
  xa_MaxLen :: int
  xa_Approx :: bool
  xa_Values :: "(string \<times> string) list"

record XReadGroupArgs =
  xr_Group :: string
  xr_Consumer :: string
  xr_Streams :: "string list"
  xr_Count :: int
  xr_Block :: duration

record XAutoClaimArgs =
  xc_Stream :: string
  xc_Group :: string
  xc_Consumer :: string
  xc_MinIdle :: duration
  xc_Start :: string
  xc_Count :: int

text \<open>An error of the client: the sentinel \<open>goredis.Nil\<close>, or an error with a text.\<close>

datatype redis_error = RedisNil | RedisErr string

definition redis_go_error :: "redis_error \<Rightarrow> go_error" where
  "redis_go_error e = (case e of RedisNil \<Rightarrow> Remote ''redis: nil'' | RedisErr m \<Rightarrow> Remote m)"

record 'w redis_client =
  SetNX :: "string \<Rightarrow> string \<Rightarrow> duration \<Rightarrow> 'w \<Rightarrow> (redis_error + bool) \<times> 'w"
  SetKey :: "string \<Rightarrow> string \<Rightarrow> duration \<Rightarrow> 'w \<Rightarrow> redis_error option \<times> 'w"
  Del :: "string \<Rightarrow> 'w \<Rightarrow> redis_error option \<times> 'w"
  Exists :: "string \<Rightarrow> 'w \<Rightarrow> (redis_error + int) \<times> 'w"
  XAdd :: "XAddArgs \<Rightarrow> 'w \<Rightarrow> (redis_error + string) \<times> 'w"
  XGroupCreateMkStream :: "string \<Rightarrow> string \<Rightarrow> string \<Rightarrow> 'w \<Rightarrow> redis_error option \<times> 'w"
  XReadGroup :: "XReadGroupArgs \<Rightarrow> 'w \<Rightarrow> (redis_error + (string \<times> XMessage list) list) \<times> 'w"
  XAutoClaim :: "XAutoClaimArgs \<Rightarrow> 'w \<Rightarrow> (redis_error + XMessage list \<times> string) \<times> 'w"
  XAck :: "string \<Rightarrow> string \<Rightarrow> string list \<Rightarrow> 'w \<Rightarrow> redis_error option \<times> 'w"
  RPing :: "'w \<Rightarrow> redis_error option \<times> 'w"
  RClose :: "'w \<Rightarrow> redis_error option \<times> 'w"

section \<open>String keys\<close>

text \<open>\<open>live w\<close>: the keys that exist, expired ones excluded.\<close>

locale redis_keys =
  fixes client :: "'w redis_client"
    and live :: "'w \<Rightarrow> string set"
  assumes setnx_new: "k \<notin> live w \<Longrightarrow> 0 < ttl \<Longrightarrow>
      \<exists>w'. SetNX client k v ttl w = (Inr True, w') \<and> live w' = insert k (live w)"
    and setnx_old: "k \<in> live w \<Longrightarrow> 0 < ttl \<Longrightarrow>
      \<exists>w'. SetNX client k v ttl w = (Inr False, w') \<and> live w' = live w"
    and set_key: "0 < ttl \<Longrightarrow> \<exists>w'. SetKey client k v ttl w = (None, w') \<and> live w' = insert k (live w)"
    and del_key: "\<exists>w'. Del client k w = (None, w') \<and> live w' = live w - {k}"
    and exists_key: "\<exists>w'. Exists client k w = (Inr (if k \<in> live w then 1 else 0), w') \<and> live w' = live w"

section \<open>Streams\<close>

text \<open>
  One stream and consumer group: \<open>fresh w\<close> are the entries the group has not delivered yet,
  \<open>pending w\<close> those delivered and not acknowledged; \<open>ready w\<close> says that the group exists.
\<close>

definition stream_entry :: "string \<Rightarrow> (string \<times> string) list \<Rightarrow> XMessage" where
  "stream_entry i vs = \<lparr>xm_ID = i, xm_Values = map_option RString \<circ> map_of vs\<rparr>"

text \<open>
  What trimming to \<open>m\<close> entries (\<open>MAXLEN\<close>, exact or approximate) may leave of a list: an end of
  it with at least \<open>m\<close> entries, if it had as many; \<open>m \<le> 0\<close> is no limit.
\<close>

definition trimmed :: "int \<Rightarrow> 'a list \<Rightarrow> 'a list \<Rightarrow> bool" where
  "trimmed m xs ys \<longleftrightarrow> suffix ys xs \<and> (m \<le> 0 \<longrightarrow> ys = xs) \<and> (0 < m \<longrightarrow> min m (int (length xs)) \<le> int (length ys))"

lemma trimmed_refl [simp]: "trimmed m xs xs"
  by (simp add: trimmed_def)

lemma trimmed_append:
  assumes "trimmed m xs ys" and "trimmed m (ys @ us) zs"
  shows "trimmed m (xs @ us) zs"
proof -
  have "suffix (ys @ us) (xs @ us)" using assms(1) by (auto simp: trimmed_def suffix_def)
  then have "suffix zs (xs @ us)" using assms(2) suffix_order.order_trans by (auto simp only: trimmed_def)
  then show ?thesis using assms by (auto simp: trimmed_def)
qed

text \<open>The newest entry is never trimmed.\<close>

lemma trimmed_last:
  assumes "trimmed m (xs @ [x]) ys"
  obtains zs where "ys = zs @ [x]" and "suffix zs xs"
proof -
  have "ys \<noteq> []" using assms by (auto simp: trimmed_def)
  moreover obtain us where "xs @ [x] = us @ ys" using assms by (auto simp: trimmed_def suffix_def)
  ultimately have "ys = butlast ys @ [x]" "xs = us @ butlast ys"
    by (metis append_butlast_last_id last_appendR last_snoc, metis butlast_append butlast_snoc)
  then show thesis using that by (metis suffix_def)
qed

lemma trimmed_drop:
  "(m \<le> 0 \<Longrightarrow> j = 0) \<Longrightarrow> (0 < m \<Longrightarrow> min m (int (length xs)) \<le> int (length xs - j)) \<Longrightarrow> trimmed m xs (drop j xs)"
  by (auto simp: trimmed_def suffix_drop)

lemma trimmed_all: "trimmed m xs ys \<Longrightarrow> m \<le> 0 \<or> int (length xs) \<le> m \<Longrightarrow> ys = xs"
  by (auto simp: trimmed_def suffix_def)

lemma trimmed_length: "trimmed m xs ys \<Longrightarrow> length ys \<le> length xs"
  by (auto simp: trimmed_def suffix_length_le)

locale redis_stream =
  fixes client :: "'w redis_client"
    and stream :: string
    and group :: string
    and ready :: "'w \<Rightarrow> bool"
    and fresh :: "'w \<Rightarrow> XMessage list"
    and pending :: "'w \<Rightarrow> XMessage list"
  assumes xadd: "ready w \<Longrightarrow> xa_Stream a = stream \<Longrightarrow>
      \<exists>i w'. XAdd client a w = (Inr i, w') \<and> ready w' \<and>
        trimmed (xa_MaxLen a) (fresh w @ [stream_entry i (xa_Values a)]) (fresh w') \<and> pending w' = pending w"
    and xread_none: "ready w \<Longrightarrow> xr_Group r = group \<Longrightarrow> xr_Streams r = [stream, ''>''] \<Longrightarrow> fresh w = [] \<Longrightarrow>
      \<exists>w'. XReadGroup client r w = (Inl RedisNil, w') \<and> ready w' \<and> fresh w' = [] \<and> pending w' = pending w"
    and xread_some: "ready w \<Longrightarrow> xr_Group r = group \<Longrightarrow> xr_Streams r = [stream, ''>''] \<Longrightarrow> fresh w \<noteq> [] \<Longrightarrow>
      0 < xr_Count r \<Longrightarrow>
      \<exists>w'. XReadGroup client r w = (Inr [(stream, take (nat (xr_Count r)) (fresh w))], w') \<and> ready w' \<and>
        fresh w' = drop (nat (xr_Count r)) (fresh w) \<and>
        pending w' = pending w @ take (nat (xr_Count r)) (fresh w)"
    and xack: "ready w \<Longrightarrow>
      \<exists>w'. XAck client stream group ids w = (None, w') \<and> ready w' \<and> fresh w' = fresh w \<and>
        pending w' = filter (\<lambda>m. xm_ID m \<notin> set ids) (pending w)"
    and xautoclaim: "ready w \<Longrightarrow> xc_Stream c = stream \<Longrightarrow> xc_Group c = group \<Longrightarrow>
      \<exists>ms next w'. XAutoClaim client c w = (Inr (ms, next), w') \<and> ready w' \<and> fresh w' = fresh w \<and>
        set (pending w') \<subseteq> set (pending w) \<and> set ms \<subseteq> set (pending w')"

section \<open>A server\<close>

text \<open>
  A server on which the laws hold: the time in nanoseconds, keys with their value and expiry
  time, and streams.  A stream has the number of entries trimmed so far, the entries it still
  holds, and for each group the number of entries behind it, trimmed ones included, and the
  pending entries with their last delivery time.  Expiry times are exact; a server counts in
  milliseconds, and the program uses whole seconds.
\<close>

record redis_stream_state =
  sm_trimmed :: nat
  sm_entries :: "XMessage list"
  sm_groups :: "string \<rightharpoonup> nat \<times> (XMessage \<times> int) list"

record keyspace =
  ks_now :: int
  ks_keys :: "string \<rightharpoonup> string \<times> int"
  ks_streams :: "string \<rightharpoonup> redis_stream_state"

definition ks_has :: "'a keyspace_scheme \<Rightarrow> string \<Rightarrow> bool" where
  "ks_has s k = (case ks_keys s k of None \<Rightarrow> False | Some (v, t) \<Rightarrow> ks_now s < t)"

definition ks_live :: "'a keyspace_scheme \<Rightarrow> string set" where
  "ks_live s = {k. ks_has s k}"

definition ks_stream :: "'a keyspace_scheme \<Rightarrow> string \<Rightarrow> redis_stream_state" where
  "ks_stream s n = (case ks_streams s n of None \<Rightarrow> \<lparr>sm_trimmed = 0, sm_entries = [], sm_groups = Map.empty\<rparr> | Some x \<Rightarrow> x)"

definition ks_put :: "string \<Rightarrow> redis_stream_state \<Rightarrow> 'a keyspace_scheme \<Rightarrow> 'a keyspace_scheme" where
  "ks_put n x s = s\<lparr>ks_streams := (ks_streams s)(n \<mapsto> x)\<rparr>"

definition sm_added :: "redis_stream_state \<Rightarrow> nat" where
  "sm_added x = sm_trimmed x + length (sm_entries x)"

text \<open>The entries to trim: approximate trimming removes whole nodes of 100 entries.\<close>

definition excess :: "int \<Rightarrow> bool \<Rightarrow> nat \<Rightarrow> nat" where
  "excess maxLen approx n =
     (if maxLen \<le> 0 then 0 else let k = n - nat maxLen in if approx then k - k mod 100 else k)"

definition ks_xadd :: "XAddArgs \<Rightarrow> 'a keyspace_scheme \<Rightarrow> (redis_error + string) \<times> 'a keyspace_scheme" where
  "ks_xadd a s =
     (let x = ks_stream s (xa_Stream a);
          i = itoa (int (sm_added x) + 1) @ ''-0'';
          es = sm_entries x @ [stream_entry i (xa_Values a)];
          k = excess (xa_MaxLen a) (xa_Approx a) (length es)
      in (Inr i, ks_put (xa_Stream a) (x\<lparr>sm_trimmed := sm_trimmed x + k, sm_entries := drop k es\<rparr>) s))"

definition ks_group_create :: "string \<Rightarrow> string \<Rightarrow> string \<Rightarrow> 'a keyspace_scheme \<Rightarrow> redis_error option \<times> 'a keyspace_scheme" where
  "ks_group_create n g start s =
     (let x = ks_stream s n in
      if sm_groups x g \<noteq> None then (Some (RedisErr ''BUSYGROUP Consumer Group name already exists''), s)
      else (None, ks_put n (x\<lparr>sm_groups := (sm_groups x)
             (g \<mapsto> (if start = ''$'' then sm_added x else 0, []))\<rparr>) s))"

definition no_group :: redis_error where
  "no_group = RedisErr ''NOGROUP No such key or consumer group''"

definition ks_read :: "XReadGroupArgs \<Rightarrow> 'a keyspace_scheme \<Rightarrow> (redis_error + (string \<times> XMessage list) list) \<times> 'a keyspace_scheme" where
  "ks_read a s = (case xr_Streams a of
       n # _ \<Rightarrow>
         (let x = ks_stream s n in
          case sm_groups x (xr_Group a) of
            None \<Rightarrow> (Inl no_group, s)
          | Some (pos, pel) \<Rightarrow>
              (let rest = drop (pos - sm_trimmed x) (sm_entries x);
                   ms = (if 0 < xr_Count a then take (nat (xr_Count a)) rest else rest)
               in if ms = [] then (Inl RedisNil, s)
                  else (Inr [(n, ms)], ks_put n (x\<lparr>sm_groups := (sm_groups x)
                          (xr_Group a \<mapsto> (max pos (sm_trimmed x) + length ms, pel @ map (\<lambda>m. (m, ks_now s)) ms))\<rparr>) s)))
     | [] \<Rightarrow> (Inl (RedisErr ''ERR wrong number of arguments''), s))"

definition ks_ack :: "string \<Rightarrow> string \<Rightarrow> string list \<Rightarrow> 'a keyspace_scheme \<Rightarrow> redis_error option \<times> 'a keyspace_scheme" where
  "ks_ack n g ids s =
     (let x = ks_stream s n in
      case sm_groups x g of
        None \<Rightarrow> (None, s)
      | Some (pos, pel) \<Rightarrow>
          (None, ks_put n (x\<lparr>sm_groups := (sm_groups x)
             (g \<mapsto> (pos, filter (\<lambda>(m, t). xm_ID m \<notin> set ids) pel))\<rparr>) s))"

text \<open>
  \<open>XAUTOCLAIM\<close> from the start of the pending list: at most \<open>tries\<close> entries are looked at and at most
  \<open>n\<close> are claimed or removed.  An entry the stream no longer holds (\<open>ex\<close>) is removed from the
  pending list; one that has been idle long enough is delivered anew.
\<close>

fun claim_scan ::
  "(XMessage \<Rightarrow> bool) \<Rightarrow> int \<Rightarrow> int \<Rightarrow> nat \<Rightarrow> nat \<Rightarrow> (XMessage \<times> int) list \<Rightarrow> XMessage list \<times> (XMessage \<times> int) list" where
  "claim_scan ex now idle tries n [] = ([], [])"
| "claim_scan ex now idle tries n ((m, t) # pel) =
     (if tries = 0 \<or> n = 0 then ([], (m, t) # pel)
      else if \<not> ex m then claim_scan ex now idle (tries - 1) (n - 1) pel
      else if idle \<le> now - t then
        (case claim_scan ex now idle (tries - 1) (n - 1) pel of (ms, pel') \<Rightarrow> (m # ms, (m, now) # pel'))
      else (case claim_scan ex now idle (tries - 1) n pel of (ms, pel') \<Rightarrow> (ms, (m, t) # pel')))"

text \<open>The part of the pending list a scan does not look at; it gives the cursor of the answer.\<close>

fun scan_rest :: "(XMessage \<Rightarrow> bool) \<Rightarrow> int \<Rightarrow> int \<Rightarrow> nat \<Rightarrow> nat \<Rightarrow> (XMessage \<times> int) list \<Rightarrow> (XMessage \<times> int) list" where
  "scan_rest ex now idle tries n [] = []"
| "scan_rest ex now idle tries n ((m, t) # pel) =
     (if tries = 0 \<or> n = 0 then (m, t) # pel
      else scan_rest ex now idle (tries - 1) (if \<not> ex m \<or> idle \<le> now - t then n - 1 else n) pel)"

definition in_stream :: "redis_stream_state \<Rightarrow> XMessage \<Rightarrow> bool" where
  "in_stream x m \<longleftrightarrow> xm_ID m \<in> xm_ID ` set (sm_entries x)"

text \<open>A call looks at ten entries for every one it may claim.\<close>

definition ks_autoclaim :: "XAutoClaimArgs \<Rightarrow> 'a keyspace_scheme \<Rightarrow> (redis_error + XMessage list \<times> string) \<times> 'a keyspace_scheme" where
  "ks_autoclaim a s =
     (let x = ks_stream s (xc_Stream a)
      in case sm_groups x (xc_Group a) of
           None \<Rightarrow> (Inl no_group, s)
         | Some (pos, pel) \<Rightarrow>
             (let tries = nat (10 * xc_Count a); n = nat (xc_Count a);
                  (ms, pel') = claim_scan (in_stream x) (ks_now s) (xc_MinIdle a) tries n pel;
                  rest = scan_rest (in_stream x) (ks_now s) (xc_MinIdle a) tries n pel
              in (Inr (ms, case rest of [] \<Rightarrow> ''0-0'' | (m, t) # _ \<Rightarrow> xm_ID m),
                  ks_put (xc_Stream a) (x\<lparr>sm_groups := (sm_groups x)(xc_Group a \<mapsto> (pos, pel'))\<rparr>) s)))"

lemma claim_scan_subset:
  "claim_scan ex now idle tries n pel = (ms, pel') \<Longrightarrow>
     set ms \<subseteq> fst ` set pel' \<and> fst ` set pel' \<subseteq> fst ` set pel"
proof (induction ex now idle tries n pel arbitrary: ms pel' rule: claim_scan.induct)
  case (2 ex now idle tries n m t pel)
  consider "tries = 0 \<or> n = 0" | "0 < tries" "0 < n" "\<not> ex m" | "0 < tries" "0 < n" "ex m" "idle \<le> now - t"
    | "0 < tries" "0 < n" "ex m" "\<not> idle \<le> now - t" by fastforce
  then show ?case
  proof cases
    case 2
    then show ?thesis using "2.IH"(1) [of ms pel'] "2.prems" by auto
  next
    case 3
    obtain ms1 pel1 where r: "claim_scan ex now idle (tries - 1) (n - 1) pel = (ms1, pel1)" by force
    have "set ms1 \<subseteq> fst ` set pel1 \<and> fst ` set pel1 \<subseteq> fst ` set pel" using "2.IH"(2) r 3 by auto
    moreover have "ms = m # ms1" "pel' = (m, now) # pel1" using "2.prems" r 3 by auto
    ultimately show ?thesis by (simp, blast)
  next
    case 4
    obtain ms1 pel1 where r: "claim_scan ex now idle (tries - 1) n pel = (ms1, pel1)" by force
    have "set ms1 \<subseteq> fst ` set pel1 \<and> fst ` set pel1 \<subseteq> fst ` set pel" using "2.IH"(3) r 4 by auto
    moreover have "ms = ms1" "pel' = (m, t) # pel1" using "2.prems" r 4 by auto
    ultimately show ?thesis by (simp, blast)
  qed (use "2.prems" in auto)
qed simp

text \<open>A scan that does not run out of claims takes everything claimable among the entries it looks at.\<close>

lemma filter_scanned:
  assumes "\<forall>x \<in> set (take k pel). ex (fst x)"
  shows "filter ex (map fst (take k pel)) @ map fst (drop k pel) = map fst pel"
proof -
  have "filter ex (map fst (take k pel)) = map fst (take k pel)" using assms by (simp add: filter_id_conv)
  then show ?thesis by (simp flip: map_append)
qed

lemma claim_scan_all:
  assumes "claim_scan ex now idle tries n pel = (ms, pel')"
    and "length (filter (\<lambda>(m, t). \<not> ex m \<or> idle \<le> now - t) (take tries pel)) \<le> n"
  shows "ms = map fst (filter (\<lambda>(m, t). ex m \<and> idle \<le> now - t) (take tries pel))"
    and "map fst pel' = filter ex (map fst (take tries pel)) @ map fst (drop tries pel)"
  using assms
proof (induction ex now idle tries n pel arbitrary: ms pel' rule: claim_scan.induct)
  case (2 ex now idle tries n m t pel)
  {
    case 1
    then show ?case using 2 by (cases tries; cases n) (auto split: if_splits prod.splits simp: filter_empty_conv)
  next
    case 2
    then show ?case using "2.IH" by (cases tries; cases n) (auto split: if_splits prod.splits simp: filter_empty_conv intro!: filter_scanned [symmetric])
  }
qed simp_all

definition keyspace_client :: "'a keyspace_scheme redis_client" where
  "keyspace_client =
     \<lparr>SetNX = \<lambda>k v ttl s. if ks_has s k then (Inr False, s)
                else (Inr True, s\<lparr>ks_keys := (ks_keys s)(k \<mapsto> (v, ks_now s + ttl))\<rparr>),
      SetKey = \<lambda>k v ttl s. (None, s\<lparr>ks_keys := (ks_keys s)(k \<mapsto> (v, ks_now s + ttl))\<rparr>),
      Del = \<lambda>k s. (None, s\<lparr>ks_keys := (ks_keys s)(k := None)\<rparr>),
      Exists = \<lambda>k s. (Inr (if ks_has s k then 1 else 0), s),
      XAdd = ks_xadd, XGroupCreateMkStream = ks_group_create, XReadGroup = ks_read,
      XAutoClaim = ks_autoclaim, XAck = ks_ack,
      RPing = \<lambda>s. (None, s), RClose = \<lambda>s. (None, s)\<rparr>"

interpretation keyspace: redis_keys keyspace_client ks_live
  by unfold_locales (auto simp: keyspace_client_def ks_live_def ks_has_def split: option.splits)

definition ks_ready :: "string \<Rightarrow> string \<Rightarrow> 'a keyspace_scheme \<Rightarrow> bool" where
  "ks_ready n g s \<longleftrightarrow> (case sm_groups (ks_stream s n) g of
       None \<Rightarrow> False | Some (pos, pel) \<Rightarrow> pos \<le> sm_added (ks_stream s n))"

definition ks_fresh :: "string \<Rightarrow> string \<Rightarrow> 'a keyspace_scheme \<Rightarrow> XMessage list" where
  "ks_fresh n g s = (case sm_groups (ks_stream s n) g of
       None \<Rightarrow> [] | Some (pos, pel) \<Rightarrow> drop (pos - sm_trimmed (ks_stream s n)) (sm_entries (ks_stream s n)))"

definition ks_pending :: "string \<Rightarrow> string \<Rightarrow> 'a keyspace_scheme \<Rightarrow> XMessage list" where
  "ks_pending n g s = (case sm_groups (ks_stream s n) g of None \<Rightarrow> [] | Some (pos, pel) \<Rightarrow> map fst pel)"

lemma ks_stream_put [simp]: "ks_stream (ks_put n x s) m = (if m = n then x else ks_stream s m)"
  by (simp add: ks_stream_def ks_put_def)

lemma ks_stream_updates [simp]:
  "ks_stream (s\<lparr>ks_now := t\<rparr>) m = ks_stream s m" "ks_stream (s\<lparr>ks_keys := ks\<rparr>) m = ks_stream s m"
  by (simp_all add: ks_stream_def)

lemmas ks_views = ks_ready_def ks_fresh_def ks_pending_def keyspace_client_def

lemma sm_added_simps [simp]:
  "sm_added (x\<lparr>sm_groups := gs\<rparr>) = sm_added x"
  "k \<le> length es \<Longrightarrow> sm_added (x\<lparr>sm_trimmed := t + k, sm_entries := drop k es\<rparr>) = t + length es"
  by (simp_all add: sm_added_def)

lemma excess_le: "excess m ap n \<le> n" "m \<le> 0 \<Longrightarrow> excess m ap n = 0" "0 < m \<Longrightarrow> min m (int n) \<le> int (n - excess m ap n)"
  by (auto simp: excess_def Let_def)

text \<open>Trimming the stream trims what a group has not read.\<close>

lemma trim_fresh:
  fixes e :: 'e and p tr :: nat and es :: "'e list" and m :: int and ap :: bool
  defines "k \<equiv> excess m ap (length (es @ [e]))"
  assumes "p \<le> tr + length es"
  shows "trimmed m (drop (p - tr) es @ [e]) (drop (p - (tr + k)) (drop k (es @ [e])))"
proof -
  have "drop (p - tr) es @ [e] = drop (p - tr) (es @ [e])" using assms(2) by simp
  moreover have "drop (p - (tr + k)) (drop k (es @ [e])) = drop (k - (p - tr)) (drop (p - tr) (es @ [e]))"
    unfolding drop_drop by (rule arg_cong [of _ _ "\<lambda>i. drop i (es @ [e])"]) simp
  moreover have "trimmed m (drop (p - tr) (es @ [e])) (drop (k - (p - tr)) (drop (p - tr) (es @ [e])))"
    using excess_le [where m = m and ap = ap and n = "length (es @ [e])"] assms(2) unfolding k_def
    by (intro trimmed_drop) auto
  ultimately show ?thesis by simp
qed

interpretation keyspace_stream: redis_stream keyspace_client n g "ks_ready n g" "ks_fresh n g" "ks_pending n g" for n g
proof
  fix w :: "'a keyspace_scheme" and a :: XAddArgs
  assume r: "ks_ready n g w" "xa_Stream a = n"
  then obtain pos pel where g: "sm_groups (ks_stream w n) g = Some (pos, pel)" "pos \<le> sm_added (ks_stream w n)"
    by (auto simp: ks_ready_def split: option.splits)
  let ?x = "ks_stream w n" and ?i = "itoa (int (sm_added (ks_stream w n)) + 1) @ ''-0''"
  let ?e = "stream_entry ?i (xa_Values a)"
  let ?k = "excess (xa_MaxLen a) (xa_Approx a) (length (sm_entries ?x @ [?e]))"
  have "XAdd keyspace_client a w = (Inr ?i, ks_put n (?x\<lparr>sm_trimmed := sm_trimmed ?x + ?k, sm_entries := drop ?k (sm_entries ?x @ [?e])\<rparr>) w)"
    using r(2) by (simp add: keyspace_client_def ks_xadd_def Let_def)
  moreover have "?k \<le> length (sm_entries ?x @ [?e])" by (rule excess_le)
  moreover have "trimmed (xa_MaxLen a) (drop (pos - sm_trimmed ?x) (sm_entries ?x) @ [?e])
      (drop (pos - (sm_trimmed ?x + ?k)) (drop ?k (sm_entries ?x @ [?e])))"
    using trim_fresh [where p = pos and tr = "sm_trimmed ?x" and es = "sm_entries ?x" and e = ?e and m = "xa_MaxLen a" and ap = "xa_Approx a"] g(2) by (simp only: sm_added_def)
  ultimately show "\<exists>i w'. XAdd keyspace_client a w = (Inr i, w') \<and> ks_ready n g w' \<and>
      trimmed (xa_MaxLen a) (ks_fresh n g w @ [stream_entry i (xa_Values a)]) (ks_fresh n g w') \<and> ks_pending n g w' = ks_pending n g w"
    using g by (intro exI conjI) (assumption | simp add: ks_ready_def ks_fresh_def ks_pending_def sm_added_def del: append_assoc drop_drop)+
next
  fix w :: "'a keyspace_scheme" and ids
  assume "ks_ready n g w"
  then show "\<exists>w'. XAck keyspace_client n g ids w = (None, w') \<and> ks_ready n g w' \<and> ks_fresh n g w' = ks_fresh n g w \<and>
      ks_pending n g w' = filter (\<lambda>m. xm_ID m \<notin> set ids) (ks_pending n g w)"
    by (auto simp: ks_views ks_ack_def Let_def filter_map comp_def case_prod_unfold split: option.splits)
next
  fix w :: "'a keyspace_scheme" and a :: XAutoClaimArgs
  assume r: "ks_ready n g w" "xc_Stream a = n" "xc_Group a = g"
  then obtain pos pel where g: "sm_groups (ks_stream w n) g = Some (pos, pel)"
    by (auto simp: ks_ready_def split: option.splits)
  obtain ms pel' where c: "claim_scan (in_stream (ks_stream w n)) (ks_now w) (xc_MinIdle a) (nat (10 * xc_Count a))
      (nat (xc_Count a)) pel = (ms, pel')" by force
  from claim_scan_subset [OF c] r g c
  show "\<exists>ms next w'. XAutoClaim keyspace_client a w = (Inr (ms, next), w') \<and> ks_ready n g w' \<and>
      ks_fresh n g w' = ks_fresh n g w \<and> set (ks_pending n g w') \<subseteq> set (ks_pending n g w) \<and> set ms \<subseteq> set (ks_pending n g w')"
    by (auto simp: ks_views ks_autoclaim_def Let_def)
qed (auto simp: ks_views ks_read_def sm_added_def Let_def comp_def min_def max_def add.commute split: option.splits)

end
