(* ===== verification/Redis_Buffer.thy ===== *)
theory Redis_Buffer
  imports Models Redis_Client
begin

text \<open>
  \<open>internal/buffer/redis.go\<close>: the \<open>RawBuffer\<close> interface and its implementation on
  Redis Streams over the go-redis client.
\<close>

section \<open>Interface\<close>

definition DefaultRawStreamName :: string where
  "DefaultRawStreamName = ''raw_events''"

definition DefaultGroupName :: string where
  "DefaultGroupName = ''ulpf-worker-group''"

record RawMessage =
  rm_ID :: string
  rm_Event :: RawEvent

text \<open>Event pointers passed to \<open>PublishRaw\<close> are never nil in this program.\<close>

record 'w RawBuffer =
  PublishRaw :: "string \<Rightarrow> RawEvent \<Rightarrow> 'w \<Rightarrow> string result \<times> 'w"
  EnsureGroup :: "string \<Rightarrow> string \<Rightarrow> 'w \<Rightarrow> go_error option \<times> 'w"
  ReadGroup :: "string \<Rightarrow> string \<Rightarrow> string \<Rightarrow> int \<Rightarrow> duration \<Rightarrow> 'w \<Rightarrow> RawMessage list result \<times> 'w"
  Ack :: "string \<Rightarrow> string \<Rightarrow> string list \<Rightarrow> 'w \<Rightarrow> go_error option \<times> 'w"
  ClaimPending :: "string \<Rightarrow> string \<Rightarrow> string \<Rightarrow> duration \<Rightarrow> int \<Rightarrow> 'w \<Rightarrow> RawMessage list result \<times> 'w"
  Ping :: "'w \<Rightarrow> go_error option \<times> 'w"
  Close :: "'w \<Rightarrow> go_error option \<times> 'w"

section \<open>Redis implementation\<close>

record 'w RedisRawBuffer =
  rb_client :: "'w redis_client"
  rb_maxLen :: int

definition NewRedisRawBuffer :: "'w redis_client \<Rightarrow> int \<Rightarrow> 'w RedisRawBuffer" where
  "NewRedisRawBuffer rdb maxLen = \<lparr>rb_client = rdb, rb_maxLen = maxLen\<rparr>"

definition redis_Ping :: "'w RedisRawBuffer \<Rightarrow> 'w \<Rightarrow> go_error option \<times> 'w" where
  "redis_Ping r w = (case RPing (rb_client r) w of (e, w') \<Rightarrow> (map_option redis_go_error e, w'))"

definition redis_PublishRaw :: "'w RedisRawBuffer \<Rightarrow> string \<Rightarrow> RawEvent \<Rightarrow> 'w \<Rightarrow> string result \<times> 'w" where
  "redis_PublishRaw r stream0 event w =
     (let stream = or_default stream0 DefaultRawStreamName;
          payloadJSON = json_print (raw_event_json event);
          args = \<lparr>xa_Stream = stream, xa_MaxLen = rb_maxLen r, xa_Approx = rb_maxLen r > 0,
                  xa_Values = [(''event_id'', re_EventID event), (''payload'', payloadJSON)]\<rparr>
      in case XAdd (rb_client r) args w of
           (Inl err, w') \<Rightarrow> (Inl (Wrap (''failed to XAdd to stream '' @ stream) (redis_go_error err)), w')
         | (Inr i, w') \<Rightarrow> (Inr i, w'))"

definition redis_error_text :: "redis_error \<Rightarrow> string" where
  "redis_error_text e = (case e of RedisNil \<Rightarrow> ''redis: nil'' | RedisErr m \<Rightarrow> m)"

definition redis_EnsureGroup :: "'w RedisRawBuffer \<Rightarrow> string \<Rightarrow> string \<Rightarrow> 'w \<Rightarrow> go_error option \<times> 'w" where
  "redis_EnsureGroup r stream0 group0 w =
     (let stream = or_default stream0 DefaultRawStreamName;
          group = or_default group0 DefaultGroupName
      in case XGroupCreateMkStream (rb_client r) stream group ''$'' w of
           (None, w') \<Rightarrow> (None, w')
         | (Some err, w') \<Rightarrow>
             if \<not> contains ''BUSYGROUP'' (redis_error_text err)
             then (Some (Wrap ''failed to create consumer group'' (redis_go_error err)), w')
             else (None, w'))"

definition parseXMessage :: "XMessage \<Rightarrow> RawMessage option" where
  "parseXMessage msg = (case xm_Values msg ''payload'' of
       Some (RString payloadStr) \<Rightarrow>
         (case dec_raw_event payloadStr of
            Inl _ \<Rightarrow> None
          | Inr rawEvent \<Rightarrow> Some \<lparr>rm_ID = xm_ID msg, rm_Event = rawEvent\<rparr>)
     | _ \<Rightarrow> None)"

text \<open>The loops over received entries: malformed ones are skipped.\<close>

definition parse_messages :: "XMessage list \<Rightarrow> RawMessage list" where
  "parse_messages ms = List.map_filter parseXMessage ms"

definition redis_ReadGroup ::
  "'w RedisRawBuffer \<Rightarrow> string \<Rightarrow> string \<Rightarrow> string \<Rightarrow> int \<Rightarrow> duration \<Rightarrow> 'w \<Rightarrow> RawMessage list result \<times> 'w" where
  "redis_ReadGroup r stream0 group0 consumer count block w =
     (let stream = or_default stream0 DefaultRawStreamName;
          group = or_default group0 DefaultGroupName;
          args = \<lparr>xr_Group = group, xr_Consumer = consumer, xr_Streams = [stream, ''>''],
                  xr_Count = count, xr_Block = block\<rparr>
      in case XReadGroup (rb_client r) args w of
           (Inl err, w') \<Rightarrow> if err = RedisNil then (Inr [], w') else (Inl (redis_go_error err), w')
         | (Inr streams, w') \<Rightarrow>
             (Inr (case streams of [] \<Rightarrow> [] | (_, messages) # _ \<Rightarrow> parse_messages messages), w'))"

definition redis_ClaimPending ::
  "'w RedisRawBuffer \<Rightarrow> string \<Rightarrow> string \<Rightarrow> string \<Rightarrow> duration \<Rightarrow> int \<Rightarrow> 'w \<Rightarrow> RawMessage list result \<times> 'w" where
  "redis_ClaimPending r stream0 group0 consumer minIdleTime count w =
     (let stream = or_default stream0 DefaultRawStreamName;
          group = or_default group0 DefaultGroupName;
          args = \<lparr>xc_Stream = stream, xc_Group = group, xc_Consumer = consumer,
                  xc_MinIdle = minIdleTime, xc_Start = ''0-0'', xc_Count = count\<rparr>
      in case XAutoClaim (rb_client r) args w of
           (Inl err, w') \<Rightarrow>
             if err = RedisNil then (Inr [], w')
             else (Inl (Wrap (''XAUTOCLAIM failed on stream '' @ stream) (redis_go_error err)), w')
         | (Inr (messages, _), w') \<Rightarrow> (Inr (parse_messages messages), w'))"

definition redis_Ack :: "'w RedisRawBuffer \<Rightarrow> string \<Rightarrow> string \<Rightarrow> string list \<Rightarrow> 'w \<Rightarrow> go_error option \<times> 'w" where
  "redis_Ack r stream0 group0 ids w =
     (case XAck (rb_client r) (or_default stream0 DefaultRawStreamName) (or_default group0 DefaultGroupName) ids w of
        (e, w') \<Rightarrow> (map_option redis_go_error e, w'))"

definition redis_Close :: "'w RedisRawBuffer \<Rightarrow> 'w \<Rightarrow> go_error option \<times> 'w" where
  "redis_Close r w = (case RClose (rb_client r) w of (e, w') \<Rightarrow> (map_option redis_go_error e, w'))"

definition redis_raw_buffer :: "'w RedisRawBuffer \<Rightarrow> 'w RawBuffer" where
  "redis_raw_buffer r =
     \<lparr>PublishRaw = redis_PublishRaw r, EnsureGroup = redis_EnsureGroup r, ReadGroup = redis_ReadGroup r,
      Ack = redis_Ack r, ClaimPending = redis_ClaimPending r, Ping = redis_Ping r, Close = redis_Close r\<rparr>"

section \<open>Publishing and consuming\<close>

definition published_entry :: "string \<Rightarrow> RawEvent \<Rightarrow> XMessage" where
  "published_entry i e = stream_entry i [(''event_id'', re_EventID e), (''payload'', json_print (raw_event_json e))]"

lemma parse_published:
  "parseXMessage (published_entry i e) = Some \<lparr>rm_ID = i, rm_Event = coerce_raw_event e\<rparr>"
  by (simp add: parseXMessage_def published_entry_def stream_entry_def dec_raw_event_print)

lemma parse_messages_append [simp]: "parse_messages (xs @ ys) = parse_messages xs @ parse_messages ys"
  by (simp add: parse_messages_def map_filter_def)

lemma parse_messages_published [simp]:
  "parse_messages [published_entry i e] = [\<lparr>rm_ID = i, rm_Event = coerce_raw_event e\<rparr>]"
  by (simp add: parse_messages_def map_filter_def parse_published)

text \<open>Entries the program has published for a list of events.\<close>

definition entries_of :: "RawEvent list \<Rightarrow> XMessage list \<Rightarrow> bool" where
  "entries_of es xs \<longleftrightarrow> list_all2 (\<lambda>e x. x = published_entry (xm_ID x) e) es xs"

lemma published_entry_id [simp]: "xm_ID (published_entry i e) = i"
  by (simp add: published_entry_def stream_entry_def)

lemma entries_of_simps [simp]: "entries_of [] []" "entries_of es xs \<Longrightarrow> entries_of (e # es) (published_entry i e # xs)"
  by (simp_all add: entries_of_def)

lemma entries_of_append: "entries_of es xs \<Longrightarrow> entries_of fs ys \<Longrightarrow> entries_of (es @ fs) (xs @ ys)"
  unfolding entries_of_def by (rule list_all2_appendI)

lemma entries_of_parse:
  assumes "entries_of es xs"
  shows "map rm_Event (parse_messages xs) = map coerce_raw_event es" and "length xs = length es"
proof -
  have l: "list_all2 (\<lambda>e x. x = published_entry (xm_ID x) e) es xs" using assms by (simp add: entries_of_def)
  then show "map rm_Event (parse_messages xs) = map coerce_raw_event es"
  proof (induction rule: list_all2_induct)
    case (Cons e es x xs)
    have "parseXMessage x = Some \<lparr>rm_ID = xm_ID x, rm_Event = coerce_raw_event e\<rparr>" using Cons.hyps(1) parse_published by metis
    then show ?case using Cons.IH by (simp add: parse_messages_def map_filter_def)
  qed (simp add: parse_messages_def map_filter_def)
  show "length xs = length es" using l by (simp add: list_all2_lengthD)
qed

text \<open>What is left of published entries are entries of what is left of the events.\<close>

lemma entries_of_trimmed:
  assumes "entries_of es xs" and "trimmed m xs ys"
  shows "\<exists>fs. trimmed m es fs \<and> entries_of fs ys"
proof -
  obtain us where us: "xs = us @ ys" using assms(2) by (auto simp: trimmed_def suffix_def)
  let ?k = "length us"
  have "entries_of (drop ?k es) ys" using assms(1) us list_all2_dropI [of _ es xs ?k] by (simp add: entries_of_def)
  moreover have "trimmed m es (drop ?k es)"
    using assms(2) us entries_of_parse(2) [OF assms(1)] by (intro trimmed_drop) (auto simp: trimmed_def)
  ultimately show ?thesis by blast
qed

fun publish_all :: "'w RawBuffer \<Rightarrow> string \<Rightarrow> RawEvent list \<Rightarrow> 'w \<Rightarrow> 'w" where
  "publish_all b s [] w = w"
| "publish_all b s (e # es) w = publish_all b s es (snd (PublishRaw b s e w))"

context redis_stream
begin

abbreviation buf :: "int \<Rightarrow> 'w RawBuffer" where
  "buf maxLen \<equiv> redis_raw_buffer (NewRedisRawBuffer client maxLen)"

lemma publish_fresh:
  assumes "ready w" and "or_default s DefaultRawStreamName = stream"
  shows "\<exists>i w'. PublishRaw (buf m) s e w = (Inr i, w') \<and> ready w' \<and>
    trimmed m (fresh w @ [published_entry i e]) (fresh w') \<and> pending w' = pending w"
  using xadd [OF assms(1), of "\<lparr>xa_Stream = stream, xa_MaxLen = m, xa_Approx = m > 0,
      xa_Values = [(''event_id'', re_EventID e), (''payload'', json_print (raw_event_json e))]\<rparr>"] assms(2)
  by (auto simp: NewRedisRawBuffer_def redis_raw_buffer_def redis_PublishRaw_def published_entry_def)

lemma publish_all_fresh:
  assumes "ready w" and "or_default s DefaultRawStreamName = stream"
  shows "ready (publish_all (buf m) s es w) \<and> pending (publish_all (buf m) s es w) = pending w \<and>
    (\<exists>xs. entries_of es xs \<and> trimmed m (fresh w @ xs) (fresh (publish_all (buf m) s es w)))"
  using assms(1)
proof (induction es arbitrary: w)
  case Nil
  then show ?case by (auto intro!: exI [of _ "[]"])
next
  case (Cons e es)
  obtain i w' where p: "PublishRaw (buf m) s e w = (Inr i, w')" "ready w'"
      "trimmed m (fresh w @ [published_entry i e]) (fresh w')" "pending w' = pending w"
    using publish_fresh [OF Cons.prems assms(2)] by blast
  obtain xs where xs: "ready (publish_all (buf m) s es w')" "pending (publish_all (buf m) s es w') = pending w'"
      "entries_of es xs" "trimmed m (fresh w' @ xs) (fresh (publish_all (buf m) s es w'))"
    using Cons.IH [OF p(2)] by blast
  show ?case using trimmed_append [OF p(3) xs(4)] xs p by (auto intro!: exI [of _ "published_entry i e # xs"])
qed

lemma read_fresh:
  assumes "ready w" and "or_default s DefaultRawStreamName = stream" and "or_default g DefaultGroupName = group"
    and "0 < n"
  shows "\<exists>w'. ReadGroup (buf m) s g c n b w = (Inr (parse_messages (take (nat n) (fresh w))), w') \<and> ready w' \<and>
    fresh w' = drop (nat n) (fresh w) \<and> pending w' = pending w @ take (nat n) (fresh w)"
proof -
  let ?a = "\<lparr>xr_Group = group, xr_Consumer = c, xr_Streams = [stream, ''>''], xr_Count = n, xr_Block = b\<rparr>"
  show ?thesis
  proof (cases "fresh w = []")
    case True
    then show ?thesis using xread_none [OF assms(1), of ?a] assms(2,3)
      by (auto simp: NewRedisRawBuffer_def redis_raw_buffer_def redis_ReadGroup_def parse_messages_def map_filter_def)
  next
    case False
    then show ?thesis using xread_some [OF assms(1), of ?a] assms(2-4)
      by (auto simp: NewRedisRawBuffer_def redis_raw_buffer_def redis_ReadGroup_def)
  qed
qed

lemma ack_pending:
  assumes "ready w" and "or_default s DefaultRawStreamName = stream" and "or_default g DefaultGroupName = group"
  shows "\<exists>w'. Ack (buf m) s g ids w = (None, w') \<and> ready w' \<and> fresh w' = fresh w \<and>
    pending w' = filter (\<lambda>x. xm_ID x \<notin> set ids) (pending w)"
  using xack [OF assms(1), of ids] assms(2,3) by (auto simp: NewRedisRawBuffer_def redis_raw_buffer_def redis_Ack_def)

text \<open>Reading after publishing on a drained stream gives back the events that were not trimmed, in order.\<close>

lemma publish_then_read:
  assumes "ready w" and "fresh w = []" and "or_default s DefaultRawStreamName = stream"
    and "or_default g DefaultGroupName = group" and "0 < n" and "int (length es) \<le> n"
  shows "\<exists>ms w' fs. ReadGroup (buf m) s g c n b (publish_all (buf m) s es w) = (Inr ms, w') \<and>
    trimmed m es fs \<and> map rm_Event ms = map coerce_raw_event fs"
proof -
  let ?w = "publish_all (buf m) s es w"
  obtain xs where xs: "ready ?w" "entries_of es xs" "trimmed m xs (fresh ?w)"
    using publish_all_fresh [OF assms(1,3), of m es] assms(2) by auto
  obtain fs where fs: "trimmed m es fs" "entries_of fs (fresh ?w)" using entries_of_trimmed [OF xs(2,3)] by blast
  have "take (nat n) (fresh ?w) = fresh ?w"
    using trimmed_length [OF fs(1)] entries_of_parse(2) [OF fs(2)] assms(6) by simp
  then show ?thesis using read_fresh [OF xs(1) assms(3,4,5), of m c b] entries_of_parse(1) [OF fs(2)] fs(1) by auto
qed

end

section \<open>Consumer groups\<close>

lemma contains_BUSYGROUP: "contains ''BUSYGROUP'' ''BUSYGROUP Consumer Group name already exists''"
  by code_simp

text \<open>
  On a reachable server \<open>EnsureGroup\<close> succeeds; a group that exists is left as it is, a
  new one starts behind the last entry.
\<close>

lemma EnsureGroup_keyspace:
  fixes w :: "'a keyspace_scheme" and s grp :: string
  defines "n \<equiv> or_default s DefaultRawStreamName" and "g \<equiv> or_default grp DefaultGroupName"
  assumes "redis_EnsureGroup (NewRedisRawBuffer keyspace_client m) s grp w = (r, w')"
  shows "r = None"
    and "sm_groups (ks_stream w n) g \<noteq> None \<Longrightarrow> w' = w"
    and "sm_groups (ks_stream w n) g = None \<Longrightarrow> ks_ready n g w' \<and> ks_fresh n g w' = [] \<and> ks_pending n g w' = []"
  using assms(3) contains_BUSYGROUP unfolding n_def [symmetric] g_def [symmetric] redis_EnsureGroup_def Let_def
  by (auto simp: NewRedisRawBuffer_def keyspace_client_def ks_group_create_def redis_error_text_def Let_def ks_ready_def ks_fresh_def
      ks_pending_def sm_added_def split: if_splits)

end
