(* ===== verification/Go_Time.thy ===== *)
theory Go_Time
  imports Go_Text "HOL-Library.Monad_Syntax"
begin

text \<open>
  The part of Go's \<open>time\<close> package the program calls: \<open>Format(time.RFC3339)\<close> on
  UTC times and \<open>Parse\<close> with the layouts \<open>time.RFC3339\<close> and
  \<open>"2006 Jan 02 15:04:05"\<close>.  An instant is its number of seconds since the Unix
  epoch; fractions of a second never reach the output of the program.
\<close>

type_synonym instant = int

section \<open>Calendar\<close>

text \<open>
  The calendar counts days from 1 March of year 0, in eras of 400 years, so that
  the leap day is the last day of a year.
\<close>

definition days_of_civil :: "int \<Rightarrow> int \<Rightarrow> int \<Rightarrow> int" where
  "days_of_civil y m d =
     (let y' = (if m \<le> 2 then y - 1 else y);
          era = y' div 400;
          yoe = y' mod 400;
          mp = (m + 9) mod 12;
          doy = (153 * mp + 2) div 5 + d - 1
      in era * 146097 + yoe * 365 + yoe div 4 - yoe div 100 + doy - 719468)"

definition civil_of_days :: "int \<Rightarrow> int \<times> int \<times> int" where
  "civil_of_days z =
     (let era = (z + 719468) div 146097;
          doe = (z + 719468) mod 146097;
          c = min 3 (doe div 36524);
          r = doe - 36524 * c;
          q = r div 1461;
          s = r mod 1461;
          a = min 3 (s div 365);
          doy = s - 365 * a;
          mp = (5 * doy + 2) div 153;
          d = doy - (153 * mp + 2) div 5 + 1;
          m = (if mp < 10 then mp + 3 else mp - 9);
          y = era * 400 + 100 * c + 4 * q + a
      in (if m \<le> 2 then y + 1 else y, m, d))"

definition is_leap :: "int \<Rightarrow> bool" where
  "is_leap y \<longleftrightarrow> y mod 4 = 0 \<and> (y mod 100 \<noteq> 0 \<or> y mod 400 = 0)"

definition days_in :: "int \<Rightarrow> int \<Rightarrow> int" where
  "days_in m y = (if m = 2 then (if is_leap y then 29 else 28)
                  else if m \<in> {4, 6, 9, 11} then 30 else 31)"

definition year_of :: "instant \<Rightarrow> int" where
  "year_of t = fst (civil_of_days (t div 86400))"

section \<open>Formatting\<close>

definition pad2 :: "int \<Rightarrow> string" where
  "pad2 n = [char_of (48 + n div 10), char_of (48 + n mod 10)]"

text \<open>\<open>appendInt(b, x, 4)\<close>: sign, then at least four digits.\<close>

definition pad4 :: "int \<Rightarrow> string" where
  "pad4 n =
     (let ds = nat_digits \<bar>n\<bar>
      in (if n < 0 then ''-'' else []) @ replicate (4 - length ds) (CHR ''0'') @ ds)"

definition format_rfc3339 :: "instant \<Rightarrow> string" where
  "format_rfc3339 t =
     (let (y, m, d) = civil_of_days (t div 86400); s = t mod 86400
      in pad4 y @ ''-'' @ pad2 m @ ''-'' @ pad2 d @ ''T'' @
         pad2 (s div 3600) @ '':'' @ pad2 (s div 60 mod 60) @ '':'' @ pad2 (s mod 60) @ ''Z'')"

section \<open>Parsing\<close>

text \<open>\<open>getnum\<close>: one or two digits, exactly two when \<open>fixed\<close>.\<close>

definition getnum :: "bool \<Rightarrow> string \<Rightarrow> (int \<times> string) option" where
  "getnum fixed s = (case s of
       c # cs \<Rightarrow>
         if \<not> is_digit c then None
         else (case cs of
                 d # ds \<Rightarrow> if is_digit d then Some (digit_val c * 10 + digit_val d, ds)
                           else if fixed then None else Some (digit_val c, cs)
               | [] \<Rightarrow> if fixed then None else Some (digit_val c, []))
     | [] \<Rightarrow> None)"

definition in_range :: "int \<Rightarrow> int \<Rightarrow> int \<times> string \<Rightarrow> (int \<times> string) option" where
  "in_range lo hi r = (if lo \<le> fst r \<and> fst r \<le> hi then Some r else None)"

definition long_year :: "string \<Rightarrow> (int \<times> string) option" where
  "long_year s =
     (if 4 \<le> length s \<and> list_all is_digit (take 4 s)
      then Some (digits_val (take 4 s), drop 4 s) else None)"

text \<open>\<open>skip\<close>: a space of the layout stands for any number of spaces, but at least one
  unless the value has ended; any other character for itself.\<close>

definition skip_space :: "string \<Rightarrow> string option" where
  "skip_space s =
     (case s of c # _ \<Rightarrow> if c = CHR '' '' then Some (dropWhile (\<lambda>x. x = CHR '' '') s) else None
      | [] \<Rightarrow> Some [])"

definition skip_char :: "char \<Rightarrow> string \<Rightarrow> string option" where
  "skip_char l s = (case s of c # cs \<Rightarrow> if c = l then Some cs else None | [] \<Rightarrow> None)"

definition short_months :: "string list" where
  "short_months =
     [''Jan'', ''Feb'', ''Mar'', ''Apr'', ''May'', ''Jun'', ''Jul'', ''Aug'', ''Sep'', ''Oct'', ''Nov'', ''Dec'']"

fun lookup_month :: "int \<Rightarrow> string list \<Rightarrow> string \<Rightarrow> (int \<times> string) option" where
  "lookup_month i [] s = None"
| "lookup_month i (n # ns) s =
     (if 3 \<le> length s \<and> map ascii_lower (take 3 s) = map ascii_lower n then Some (i, drop 3 s)
      else lookup_month (i + 1) ns s)"

text \<open>Seconds, with a fraction that the layout does not name.\<close>

definition seconds :: "string \<Rightarrow> (int \<times> string) option" where
  "seconds s = do {
     (n, r) \<leftarrow> Option.bind (getnum True s) (in_range 0 59);
     Some (n, case r of
         c # d # _ \<Rightarrow> if (c = CHR ''.'' \<or> c = CHR '','') \<and> is_digit d
                      then dropWhile is_digit (tl r) else r
       | _ \<Rightarrow> r)
   }"

definition clock :: "string \<Rightarrow> (int \<times> string) option" where
  "clock s = do {
     (hour, s) \<leftarrow> Option.bind (getnum False s) (in_range 0 23);
     s \<leftarrow> skip_char (CHR '':'') s;
     (mi, s) \<leftarrow> Option.bind (getnum True s) (in_range 0 59);
     s \<leftarrow> skip_char (CHR '':'') s;
     (sec, s) \<leftarrow> seconds s;
     Some (hour * 3600 + mi * 60 + sec, s)
   }"

definition zone :: "string \<Rightarrow> (int \<times> string) option" where
  "zone s = (case s of
       [] \<Rightarrow> None
     | c # cs \<Rightarrow>
         if c = CHR ''Z'' then Some (0, cs)
         else if length s < 6 \<or> s ! 3 \<noteq> CHR '':'' then None
         else do {
           (hr, _) \<leftarrow> Option.bind (getnum True (take 2 (drop 1 s))) (in_range 0 24);
           (mm, _) \<leftarrow> Option.bind (getnum True (take 2 (drop 4 s))) (in_range 0 60);
           let off = (hr * 60 + mm) * 60;
           if c = CHR ''+'' then Some (off, drop 6 s)
           else if c = CHR ''-'' then Some (- off, drop 6 s) else None
         })"

definition instant_of :: "int \<Rightarrow> int \<Rightarrow> int \<Rightarrow> int \<Rightarrow> instant option" where
  "instant_of y m d secs =
     (if 1 \<le> d \<and> d \<le> days_in m y then Some (days_of_civil y m d * 86400 + secs) else None)"

definition parse_rfc3339 :: "string \<Rightarrow> instant option" where
  "parse_rfc3339 s = do {
     (y, s) \<leftarrow> long_year s;
     s \<leftarrow> skip_char (CHR ''-'') s;
     (m, s) \<leftarrow> Option.bind (getnum True s) (in_range 1 12);
     s \<leftarrow> skip_char (CHR ''-'') s;
     (d, s) \<leftarrow> getnum True s;
     s \<leftarrow> skip_char (CHR ''T'') s;
     (secs, s) \<leftarrow> clock s;
     (off, s) \<leftarrow> zone s;
     if s = [] then instant_of y m d (secs - off) else None
   }"

text \<open>The layout \<open>"2006 Jan 02 15:04:05"\<close>: the day has exactly two digits.\<close>

definition parse_year_stamp :: "string \<Rightarrow> instant option" where
  "parse_year_stamp s = do {
     (y, s) \<leftarrow> long_year s;
     s \<leftarrow> skip_space s;
     (m, s) \<leftarrow> lookup_month 1 short_months s;
     s \<leftarrow> skip_space s;
     (d, s) \<leftarrow> getnum True s;
     s \<leftarrow> skip_space s;
     (secs, s) \<leftarrow> clock s;
     if s = [] then instant_of y m d secs else None
   }"

section \<open>Laws\<close>

lemma format_rfc3339_nonempty: "format_rfc3339 t \<noteq> []"
  by (simp add: format_rfc3339_def Let_def split: prod.splits)

end
