(* ===== verification/Parsing.thy ===== *)
theory Parsing
  imports Models Go_Time
begin

text \<open>
  \<open>internal/parsing\<close>: the parser interface (\<open>parser.go\<close>), the registry
  (\<open>registry.go\<close>) and the engine (\<open>engine.go\<close>), and the contract every format
  parser of the program keeps.
\<close>

section \<open>Environment of a parser\<close>

text \<open>
  What a parser reads besides its argument: the case tables, the platform's
  out-of-range \<open>float64\<close> conversion, and the wall clock; \<open>now i\<close> is the \<open>i\<close>-th
  reading of \<open>time.Now()\<close> during the call.
\<close>

record platform =
  tables :: unicode
  oob_int :: "rat \<Rightarrow> 64 word"

type_synonym clock_readings = "nat \<Rightarrow> instant"

section \<open>Interface\<close>

text \<open>A Go parser returns a pointer, so success may in principle carry \<open>nil\<close>.\<close>

record Parser =
  Format :: string
  Parse :: "clock_readings \<Rightarrow> RawEvent \<Rightarrow> ParsedEvent option result"

section \<open>Registry\<close>

definition normalizeFormat :: "unicode \<Rightarrow> string \<Rightarrow> string" where
  "normalizeFormat uc format = to_lower uc (trim_space format)"

type_synonym Registry = "string \<rightharpoonup> Parser"

definition NewRegistry :: Registry where
  "NewRegistry = Map.empty"

definition Register :: "unicode \<Rightarrow> Parser option \<Rightarrow> Registry \<Rightarrow> Registry" where
  "Register uc parser r = (case parser of
       None \<Rightarrow> r
     | Some p \<Rightarrow>
         (let key = normalizeFormat uc (Format p)
          in if key = [] then r else r(key \<mapsto> p)))"

definition Get :: "unicode \<Rightarrow> Registry \<Rightarrow> string \<Rightarrow> Parser result" where
  "Get uc r format =
     (let key = normalizeFormat uc format in
      if key = [] then Inl (Errorf ''format cannot be empty'')
      else (case r key of
              None \<Rightarrow> Inl (Errorf (''no parser registered for format: '' @ format))
            | Some p \<Rightarrow> Inr p))"

section \<open>Engine\<close>

definition EngineParse ::
  "unicode \<Rightarrow> Registry \<Rightarrow> clock_readings \<Rightarrow> RawEvent \<Rightarrow> DetectionResult \<Rightarrow> ParsedEvent option result" where
  "EngineParse uc registry now raw det =
     (case Get uc registry (dr_Format det) of
        Inl err \<Rightarrow> Inl (Wrap ''parser selection failed'' err)
      | Inr parser \<Rightarrow>
          (case Parse parser now raw of
             Inl err \<Rightarrow> Inl (Wrap (''parsing failed for format '' @ dr_Format det) err)
           | Inr parsed \<Rightarrow> Inr parsed))"

section \<open>The parser contract\<close>

text \<open>
  The fields every format parser fills: nothing of an accepted event is blank except
  the addresses, the ports and the user name.
\<close>

definition complete_parsed :: "ParsedEvent \<Rightarrow> bool" where
  "complete_parsed e \<longleftrightarrow>
     pe_Timestamp e \<noteq> [] \<and>
     si_Type (pe_Source e) \<noteq> [] \<and> si_Vendor (pe_Source e) \<noteq> [] \<and>
     si_Product (pe_Source e) \<noteq> [] \<and> si_Identifier (pe_Source e) \<noteq> [] \<and>
     ei_Category (pe_Event e) \<noteq> [] \<and> ei_Action (pe_Event e) \<noteq> [] \<and> ei_Severity (pe_Event e) \<noteq> [] \<and>
     pe_User e \<noteq> None \<and>
     (\<exists>n. pe_Network e = Some n \<and> ni_Protocol n \<noteq> [])"

text \<open>Every port a parser reports is a Go \<open>int\<close>.\<close>

definition int64_ports :: "ParsedEvent \<Rightarrow> bool" where
  "int64_ports e \<longleftrightarrow>
     (\<forall>n p. pe_Network e = Some n \<longrightarrow> ni_SrcPort n = Some p \<or> ni_DstPort n = Some p \<longrightarrow> in_int64 p)"

lemma format_names_clean:
  "trim_space ''csv'' = ''csv''" "trim_space ''json'' = ''json''" "trim_space ''syslog'' = ''syslog''"
  "map ascii_lower ''csv'' = ''csv''" "map ascii_lower ''json'' = ''json''"
  "map ascii_lower ''syslog'' = ''syslog''"
  by code_simp+

locale format_parser =
  fixes parser :: Parser
    and fmt :: string
  assumes format_name: "Format parser = fmt"
    and format_clean: "fmt \<noteq> []" "trim_space fmt = fmt" "list_all is_ascii fmt" "map ascii_lower fmt = fmt"
    and rejects_blank: "trim_space (re_Payload raw) = [] \<Longrightarrow> \<exists>e. Parse parser now raw = Inl e"
    and accepts_complete: "Parse parser now raw = Inr r \<Longrightarrow> \<exists>e. r = Some e \<and> complete_parsed e \<and> int64_ports e"
begin

lemma normalized_name: "normalizeFormat uc fmt = fmt"
  by (simp add: normalizeFormat_def format_clean to_lower_ascii)

lemma registered: "Register uc (Some parser) r = r(fmt \<mapsto> parser)"
  by (simp add: Register_def format_name normalized_name format_clean)

lemma found: "r fmt = Some parser \<Longrightarrow> normalizeFormat uc f = fmt \<Longrightarrow> Get uc r f = Inr parser"
  by (simp add: Get_def format_clean)

lemma engine_complete:
  assumes "r fmt = Some parser" and "dr_Format det = fmt" and "EngineParse uc r now raw det = Inr x"
  shows "\<exists>e. x = Some e \<and> complete_parsed e \<and> int64_ports e"
  using assms found [of r uc fmt] accepts_complete
  by (auto simp: EngineParse_def normalized_name split: sum.splits)

lemma engine_rejects_blank:
  assumes "r fmt = Some parser" and "dr_Format det = fmt" and "trim_space (re_Payload raw) = []"
  shows "\<exists>e. EngineParse uc r now raw det = Inl (Wrap (''parsing failed for format '' @ fmt) e)"
  using assms found [of r uc fmt] rejects_blank [OF assms(3), of now]
  by (auto simp: EngineParse_def normalized_name)

end

section \<open>Registry laws\<close>

text \<open>A lookup depends on the name only up to case and surrounding space.\<close>

lemma Get_Register:
  assumes "normalizeFormat uc (Format p) \<noteq> []"
  shows "Get uc (Register uc (Some p) r) f =
    (if normalizeFormat uc f = normalizeFormat uc (Format p) then Inr p else Get uc r f)"
  using assms by (simp add: Get_def Register_def Let_def)

lemma Register_ignores:
  "Register uc None r = r" "normalizeFormat uc (Format p) = [] \<Longrightarrow> Register uc (Some p) r = r"
  by (simp_all add: Register_def Let_def)

lemma Get_empty: "is_err (Get uc NewRegistry f)"
  by (simp add: Get_def NewRegistry_def Let_def)

end
