(* ===== verification/Runtime.thy ===== *)
theory Runtime
  imports Parsing Redis_Client
begin

text \<open>
  The host of a Go process as the program uses it: the UUID generator, the wall clock, the
  cancellation state of a context, the nanosecond clock and \<open>time.Sleep\<close>, each a function of
  the world; and 64-bit integer arithmetic.
\<close>

section \<open>Host\<close>

text \<open>
  \<open>event_readings\<close> are the readings of the wall clock by the parser and by the normaliser and
  the UUID drawn, if any, while one event is processed.
\<close>

record readings =
  parse_clock :: clock_readings
  normalize_clock :: clock_readings
  drawn_uuid :: string

record 'w host =
  next_uuid :: "'w \<Rightarrow> string \<times> 'w"
  wall_clock :: "'w \<Rightarrow> instant \<times> 'w"
  event_readings :: "'w \<Rightarrow> readings \<times> 'w"
  ctx_Err :: "'w \<Rightarrow> go_error option \<times> 'w"
  time_Now :: "'w \<Rightarrow> int \<times> 'w"
  time_Sleep :: "duration \<Rightarrow> 'w \<Rightarrow> 'w"

section \<open>int64\<close>

text \<open>The value of an \<open>int64\<close> operation whose exact result is \<open>n\<close>.\<close>

definition wrap64 :: "int \<Rightarrow> int" where
  "wrap64 n = sint (of_int n :: 64 word)"

lemma wrap64_id: "in_int64 n \<Longrightarrow> wrap64 n = n"
  by (simp add: wrap64_def in_int64_def int_word_sint mod_pos_pos_trivial)

lemma wrap64_upper: "2 ^ 63 \<le> n \<Longrightarrow> n < 2 ^ 64 \<Longrightarrow> wrap64 n = n - 2 ^ 64"
  using mod_add_self2 [of "n - 2 ^ 63" "2 ^ 64"] mod_pos_pos_trivial [of "n - 2 ^ 63" "2 ^ 64"]
  by (simp add: wrap64_def int_word_sint add.commute [of n])

lemma in_int64_wrap64: "in_int64 (wrap64 n)"
  by (simp add: wrap64_def in_int64_sint)

definition Second :: duration where
  "Second = 1000000000"

definition Millisecond :: duration where
  "Millisecond = 1000000"

section \<open>A host\<close>

text \<open>A host beside the server of \<open>Redis_Client\<close>: its clock runs on, a UUID is the time of its draw.\<close>

definition keyspace_host :: "'a keyspace_scheme host" where
  "keyspace_host =
     \<lparr>next_uuid = \<lambda>s. (itoa (ks_now s), s\<lparr>ks_now := ks_now s + 1\<rparr>),
      wall_clock = \<lambda>s. (ks_now s div Second, s),
      event_readings = \<lambda>s. (\<lparr>parse_clock = \<lambda>i. ks_now s div Second, normalize_clock = \<lambda>i. ks_now s div Second,
          drawn_uuid = itoa (ks_now s)\<rparr>, s\<lparr>ks_now := ks_now s + 1\<rparr>),
      ctx_Err = \<lambda>s. (None, s),
      time_Now = \<lambda>s. (ks_now s, s\<lparr>ks_now := ks_now s + 1\<rparr>),
      time_Sleep = \<lambda>d s. s\<lparr>ks_now := ks_now s + max 0 d\<rparr>\<rparr>"

end
