(* ===== verification/Ingestion.thy ===== *)
theory Ingestion
  imports Redis_Buffer Runtime
begin

text \<open>
  \<open>internal/ingestion\<close>: the service that turns requests into raw events on the stream
  (\<open>service.go\<close>) and its HTTP handlers (\<open>handler.go\<close>).
\<close>

section \<open>Service\<close>

record IngestRequest =
  iq_Format :: string
  iq_Source :: string
  iq_Payload :: string

record 'w Service =
  Ingest :: "IngestRequest \<Rightarrow> 'w \<Rightarrow> string result \<times> 'w"
  IngestBatch :: "IngestRequest list \<Rightarrow> 'w \<Rightarrow> string list result \<times> 'w"

record 'w IngestionService =
  is_rawBuffer :: "'w RawBuffer option"
  is_stream :: string

definition NewService :: "'w RawBuffer option \<Rightarrow> string \<Rightarrow> 'w IngestionService" where
  "NewService rawBuffer stream =
     \<lparr>is_rawBuffer = rawBuffer, is_stream = or_default stream DefaultRawStreamName\<rparr>"

text \<open>A new raw event for a request: id, then time of receipt, then the request's fields.\<close>

definition new_raw_event :: "'w host \<Rightarrow> IngestRequest \<Rightarrow> 'w \<Rightarrow> RawEvent \<times> 'w" where
  "new_raw_event h req w =
     (let (uuid, w1) = next_uuid h w;
          (t, w2) = wall_clock h w1
      in (\<lparr>re_EventID = ''evt_'' @ uuid, re_ReceivedAt = format_rfc3339 t, re_Format = iq_Format req,
           re_Source = iq_Source req, re_Payload = iq_Payload req\<rparr>, w2))"

text \<open>\<open>if s.rawBuffer != nil { PublishRaw \<dots> }\<close>: the error, if any.\<close>

definition buffer_event :: "'w IngestionService \<Rightarrow> RawEvent \<Rightarrow> 'w \<Rightarrow> go_error option \<times> 'w" where
  "buffer_event s e w = (case is_rawBuffer s of
       None \<Rightarrow> (None, w)
     | Some b \<Rightarrow>
         (case PublishRaw b (is_stream s) e w of
            (Inl err, w') \<Rightarrow> (Some (Wrap ''failed to buffer raw event to Redis'' err), w')
          | (Inr _, w') \<Rightarrow> (None, w')))"

definition service_Ingest :: "'w host \<Rightarrow> 'w IngestionService \<Rightarrow> IngestRequest \<Rightarrow> 'w \<Rightarrow> string result \<times> 'w" where
  "service_Ingest h s req w =
     (if iq_Payload req = [] then (Inl (Errorf ''payload must not be empty''), w)
      else (let (rawEvent, w1) = new_raw_event h req w in
            case buffer_event s rawEvent w1 of
              (Some err, w2) \<Rightarrow> (Inl err, w2)
            | (None, w2) \<Rightarrow> (Inr (re_EventID rawEvent), w2)))"

text \<open>The index of the first request without payload.\<close>

fun first_empty :: "nat \<Rightarrow> IngestRequest list \<Rightarrow> nat option" where
  "first_empty i [] = None"
| "first_empty i (r # rs) = (if iq_Payload r = [] then Some i else first_empty (Suc i) rs)"

definition empty_item :: "nat \<Rightarrow> string" where
  "empty_item i = ''item at index '' @ itoa (int i) @ '' has empty payload''"

fun ingest_loop :: "'w host \<Rightarrow> 'w IngestionService \<Rightarrow> IngestRequest list \<Rightarrow> string list \<Rightarrow> 'w \<Rightarrow> string list result \<times> 'w" where
  "ingest_loop h s [] ids w = (Inr ids, w)"
| "ingest_loop h s (req # reqs) ids w =
     (let (rawEvent, w1) = new_raw_event h req w in
      case buffer_event s rawEvent w1 of
        (Some err, w2) \<Rightarrow> (Inl err, w2)
      | (None, w2) \<Rightarrow> ingest_loop h s reqs (ids @ [re_EventID rawEvent]) w2)"

definition service_IngestBatch ::
  "'w host \<Rightarrow> 'w IngestionService \<Rightarrow> IngestRequest list \<Rightarrow> 'w \<Rightarrow> string list result \<times> 'w" where
  "service_IngestBatch h s reqs w =
     (if reqs = [] then (Inl (Errorf ''batch must not be empty''), w)
      else (case first_empty 0 reqs of
              Some i \<Rightarrow> (Inl (Errorf (empty_item i)), w)
            | None \<Rightarrow> ingest_loop h s reqs [] w))"

definition ingestion_service :: "'w host \<Rightarrow> 'w IngestionService \<Rightarrow> 'w Service" where
  "ingestion_service h s = \<lparr>Ingest = service_Ingest h s, IngestBatch = service_IngestBatch h s\<rparr>"

section \<open>Handlers\<close>

record IngestResponse =
  ir_EventID :: string
  ir_Status :: string

text \<open>A message that renders an error is kept as that error.\<close>

record ErrorResponse =
  er_EventID :: string
  er_Status :: string
  er_Message :: go_error

record BatchIngestResponse =
  br_Status :: string
  br_Count :: int
  br_EventIDs :: "string list"

datatype body = HealthBody string | IngestBody IngestResponse | BatchBody BatchIngestResponse | ErrorBody ErrorResponse

text \<open>Every handler writes the content type, one status and one JSON body.\<close>

record response =
  rp_ContentType :: string
  rp_Status :: int
  rp_Body :: body

definition json_response :: "int \<Rightarrow> body \<Rightarrow> response" where
  "json_response status b = \<lparr>rp_ContentType = ''application/json'', rp_Status = status, rp_Body = b\<rparr>"

definition writeJSONError :: "int \<Rightarrow> string \<Rightarrow> go_error \<Rightarrow> response" where
  "writeJSONError status st msg =
     json_response status (ErrorBody \<lparr>er_EventID = [], er_Status = st, er_Message = msg\<rparr>)"

text \<open>
  The bytes of a body as the encoder writes them.  \<open>lib\<close> gives the texts of the errors of the
  \<open>encoding\<close> packages.
\<close>

fun error_text :: "(go_error \<Rightarrow> string) \<Rightarrow> go_error \<Rightarrow> string" where
  "error_text lib (Errorf s) = s"
| "error_text lib (Wrap s e) = s @ '': '' @ error_text lib e"
| "error_text lib (Remote s) = s"
| "error_text lib e = lib e"

definition body_json :: "(go_error \<Rightarrow> string) \<Rightarrow> body \<Rightarrow> json" where
  "body_json lib b = (case b of
       HealthBody s \<Rightarrow> JObj [(''status'', JStr s)]
     | IngestBody r \<Rightarrow> JObj [(''event_id'', JStr (ir_EventID r)), (''status'', JStr (ir_Status r))]
     | BatchBody r \<Rightarrow> JObj [(''status'', JStr (br_Status r)), (''count'', int_json (br_Count r)),
         (''event_ids'', JArr (map JStr (br_EventIDs r)))]
     | ErrorBody r \<Rightarrow> JObj (omit_empty ''event_id'' (er_EventID r) @
         [(''status'', JStr (er_Status r)), (''message'', JStr (error_text lib (er_Message r)))]))"

definition body_bytes :: "(go_error \<Rightarrow> string) \<Rightarrow> body \<Rightarrow> string" where
  "body_bytes lib b = json_encode (body_json lib b)"

definition StatusOK :: int where "StatusOK = 200"
definition StatusAccepted :: int where "StatusAccepted = 202"
definition StatusBadRequest :: int where "StatusBadRequest = 400"
definition StatusInternalServerError :: int where "StatusInternalServerError = 500"

definition HandleHealth :: "'w \<Rightarrow> response \<times> 'w" where
  "HandleHealth w = (json_response StatusOK (HealthBody ''ok''), w)"

subsection \<open>Request bodies\<close>

definition zero_request :: IngestRequest where
  "zero_request = \<lparr>iq_Format = [], iq_Source = [], iq_Payload = []\<rparr>"

definition request_fields :: "string list" where
  "request_fields = [''format'', ''source'', ''payload'']"

definition set_request_field :: "string \<Rightarrow> json \<Rightarrow> IngestRequest \<Rightarrow> IngestRequest result" where
  "set_request_field n v q =
     (if n = ''format'' then store (\<lambda>x. q\<lparr>iq_Format := x\<rparr>) (dec_string v (iq_Format q))
      else if n = ''source'' then store (\<lambda>x. q\<lparr>iq_Source := x\<rparr>) (dec_string v (iq_Source q))
      else store (\<lambda>x. q\<lparr>iq_Payload := x\<rparr>) (dec_string v (iq_Payload q)))"

definition dec_request_value :: "json \<Rightarrow> IngestRequest result" where
  "dec_request_value v = dec_struct request_fields set_request_field v zero_request"

fun dec_requests :: "json list \<Rightarrow> IngestRequest list result" where
  "dec_requests [] = Inr []"
| "dec_requests (v # vs) = (case dec_request_value v of
     Inl e \<Rightarrow> Inl e
   | Inr q \<Rightarrow> (case dec_requests vs of Inl e \<Rightarrow> Inl e | Inr qs \<Rightarrow> Inr (q # qs)))"

text \<open>\<open>json.NewDecoder(r.Body).Decode\<close> into a request and into a slice of requests.\<close>

definition decode_request :: "string \<Rightarrow> IngestRequest result" where
  "decode_request body = (case json_decode_first body of
       None \<Rightarrow> Inl JsonSyntax | Some v \<Rightarrow> dec_request_value v)"

definition decode_batch :: "string \<Rightarrow> IngestRequest list result" where
  "decode_batch body = (case json_decode_first body of
       None \<Rightarrow> Inl JsonSyntax
     | Some v \<Rightarrow> (case v of JNull \<Rightarrow> Inr [] | JArr vs \<Rightarrow> dec_requests vs | _ \<Rightarrow> Inl JsonType))"

subsection \<open>Ingestion\<close>

definition HandleIngest :: "'w Service \<Rightarrow> string \<Rightarrow> 'w \<Rightarrow> response \<times> 'w" where
  "HandleIngest service body w = (case decode_request body of
       Inl err \<Rightarrow> (writeJSONError StatusBadRequest ''bad_request'' (Wrap ''invalid JSON payload'' err), w)
     | Inr req \<Rightarrow>
         if iq_Payload req = [] then
           (writeJSONError StatusBadRequest ''bad_request'' (Errorf ''payload must not be empty''), w)
         else (case Ingest service req w of
                 (Inl err, w') \<Rightarrow> (writeJSONError StatusInternalServerError ''ingestion_error'' err, w')
               | (Inr eventID, w') \<Rightarrow>
                   (json_response StatusAccepted (IngestBody \<lparr>ir_EventID = eventID, ir_Status = ''accepted''\<rparr>), w')))"

definition HandleIngestBatch :: "'w Service \<Rightarrow> string \<Rightarrow> 'w \<Rightarrow> response \<times> 'w" where
  "HandleIngestBatch service body w = (case decode_batch body of
       Inl err \<Rightarrow> (writeJSONError StatusBadRequest ''bad_request'' (Wrap ''invalid JSON batch payload'' err), w)
     | Inr reqs \<Rightarrow>
         if reqs = [] then
           (writeJSONError StatusBadRequest ''bad_request'' (Errorf ''batch must not be empty''), w)
         else (case first_empty 0 reqs of
                 Some i \<Rightarrow> (writeJSONError StatusBadRequest ''bad_request'' (Errorf (empty_item i)), w)
               | None \<Rightarrow>
                   (case IngestBatch service reqs w of
                      (Inl err, w') \<Rightarrow> (writeJSONError StatusInternalServerError ''ingestion_error'' err, w')
                    | (Inr eventIDs, w') \<Rightarrow>
                        (json_response StatusAccepted (BatchBody \<lparr>br_Status = ''accepted'',
                           br_Count = int (length eventIDs), br_EventIDs = eventIDs\<rparr>), w'))))"

text \<open>
  \<open>RegisterRoutes\<close>: the handler of a request with a method and a clean path; a pattern with
  \<open>GET\<close> also serves \<open>HEAD\<close>.  \<open>None\<close> is the mux's own answer (404 or 405).
\<close>

definition serve :: "'w Service \<Rightarrow> string \<Rightarrow> string \<Rightarrow> string \<Rightarrow> 'w \<Rightarrow> (response \<times> 'w) option" where
  "serve service meth path body w =
     (if meth = ''POST'' \<and> path = ''/ingest/batch'' then Some (HandleIngestBatch service body w)
      else if meth = ''POST'' \<and> path = ''/ingest'' then Some (HandleIngest service body w)
      else if (meth = ''GET'' \<or> meth = ''HEAD'') \<and> path = ''/health'' then Some (HandleHealth w)
      else None)"

section \<open>Laws\<close>

text \<open>A client reads back the body that was written.\<close>

lemma body_reads_back: "json_parse (body_bytes lib b) = Some (coerce_json (body_json lib b))"
  unfolding body_bytes_def
  by (rule json_parse_encode) (auto simp: body_json_def omit_empty_def max_nesting_depth_def split: body.split)

lemma body_fields_plain:
  "coerce_utf8 ''event_id'' = ''event_id''" "coerce_utf8 ''status'' = ''status''" "coerce_utf8 ''accepted'' = ''accepted''"
  "coerce_utf8 ''count'' = ''count''" "coerce_utf8 ''event_ids'' = ''event_ids''"
  by code_simp+

lemma accepted_body_reads_back:
  "json_parse (body_bytes lib (IngestBody \<lparr>ir_EventID = i, ir_Status = ''accepted''\<rparr>)) =
     Some (JObj [(''event_id'', JStr (coerce_utf8 i)), (''status'', JStr ''accepted'')])"
  "json_parse (body_bytes lib (BatchBody \<lparr>br_Status = ''accepted'', br_Count = n, br_EventIDs = ids\<rparr>)) =
     Some (JObj [(''status'', JStr ''accepted''), (''count'', int_json n), (''event_ids'', JArr (map (JStr \<circ> coerce_utf8) ids))])"
  by (simp_all add: body_reads_back body_json_def body_fields_plain int_json_def)

lemma first_empty_None: "first_empty i rs = None \<longleftrightarrow> (\<forall>r \<in> set rs. iq_Payload r \<noteq> [])"
  by (induction rs arbitrary: i) auto

lemma first_empty_Some:
  "first_empty i rs = Some k \<Longrightarrow>
     i \<le> k \<and> k < i + length rs \<and> iq_Payload (rs ! (k - i)) = [] \<and> (\<forall>j < k - i. iq_Payload (rs ! j) \<noteq> [])"
proof (induction rs arbitrary: i)
  case (Cons r rs)
  show ?case
  proof (cases "iq_Payload r = []")
    case False
    then have "first_empty (Suc i) rs = Some k" using Cons.prems by simp
    from Cons.IH [OF this] False show ?thesis
      by (auto simp: nth_Cons' Suc_diff_le less_Suc_eq_0_disj dest: Suc_le_lessD)
  qed (use Cons.prems in auto)
qed simp

text \<open>An event is made from its request without change to the request's fields.\<close>

definition made_from :: "IngestRequest \<Rightarrow> RawEvent \<Rightarrow> bool" where
  "made_from q e \<longleftrightarrow> re_Format e = iq_Format q \<and> re_Source e = iq_Source q \<and> re_Payload e = iq_Payload q \<and>
     prefix ''evt_'' (re_EventID e) \<and> re_ReceivedAt e \<noteq> []"

lemma new_raw_event_made: "new_raw_event h q w = (e, w') \<Longrightarrow> made_from q e"
  by (auto simp: new_raw_event_def made_from_def format_rfc3339_nonempty split: prod.splits)

text \<open>
  Ingestion through a buffer that keeps the stream contract: \<open>quiet\<close> says that reading the
  clock and drawing a UUID do not touch the stream.
\<close>

locale ingestion_stream = redis_stream client stream group ready fresh pending
  for client :: "'w redis_client" and stream group ready fresh pending +
  fixes h :: "'w host"
  assumes uuid_quiet: "next_uuid h w = (u, w') \<Longrightarrow> ready w' = ready w \<and> fresh w' = fresh w \<and> pending w' = pending w"
    and clock_quiet: "wall_clock h w = (t, w') \<Longrightarrow> ready w' = ready w \<and> fresh w' = fresh w \<and> pending w' = pending w"
begin

abbreviation svc :: "int \<Rightarrow> string \<Rightarrow> 'w IngestionService" where
  "svc maxLen s \<equiv> NewService (Some (buf maxLen)) s"

lemma new_event_quiet:
  "new_raw_event h q w = (e, w') \<Longrightarrow> ready w' = ready w \<and> fresh w' = fresh w \<and> pending w' = pending w"
  by (auto simp: new_raw_event_def split: prod.splits dest!: uuid_quiet clock_quiet)

lemma buffer_event_fresh:
  assumes "ready w" and "or_default s DefaultRawStreamName = stream" and "stream \<noteq> []"
  shows "\<exists>i w'. buffer_event (svc m s) e w = (None, w') \<and> ready w' \<and>
    trimmed m (fresh w @ [published_entry i e]) (fresh w') \<and> pending w' = pending w"
proof -
  have "or_default stream DefaultRawStreamName = stream" using assms(3) by (simp add: or_default_def)
  from publish_fresh [OF assms(1) this, of m e] show ?thesis
    using assms(2) by (auto simp: NewService_def buffer_event_def)
qed

lemma ingest_loop_fresh:
  assumes "ready w" and "or_default s DefaultRawStreamName = stream" and "stream \<noteq> []"
  shows "\<exists>es xs w'. ingest_loop h (svc m s) reqs ids w = (Inr (ids @ map re_EventID es), w') \<and> ready w' \<and>
    list_all2 made_from reqs es \<and> entries_of es xs \<and> trimmed m (fresh w @ xs) (fresh w') \<and> pending w' = pending w"
  using assms(1)
proof (induction reqs arbitrary: ids w)
  case Nil
  then show ?case by (auto intro!: exI [of _ "[]"])
next
  case (Cons q reqs)
  obtain e w1 where e: "new_raw_event h q w = (e, w1)" by force
  note q1 = new_event_quiet [OF e]
  obtain i w2 where b: "buffer_event (svc m s) e w1 = (None, w2)" "ready w2"
      "trimmed m (fresh w @ [published_entry i e]) (fresh w2)" "pending w2 = pending w"
    using buffer_event_fresh [OF _ assms(2,3), of w1 m e] q1 Cons.prems by auto
  obtain es xs w' where r: "ingest_loop h (svc m s) reqs (ids @ [re_EventID e]) w2 = (Inr ((ids @ [re_EventID e]) @ map re_EventID es), w')"
      "ready w'" "list_all2 made_from reqs es" "entries_of es xs" "trimmed m (fresh w2 @ xs) (fresh w')" "pending w' = pending w2"
    using Cons.IH [OF b(2), of "ids @ [re_EventID e]"] by blast
  show ?case using e b r new_raw_event_made [OF e] trimmed_append [OF b(3) r(5)]
    by (intro exI [of _ "e # es"] exI [of _ "published_entry i e # xs"] exI [of _ w']) simp
qed

end

interpretation keyspace_ingestion: ingestion_stream keyspace_client n g "ks_ready n g" "ks_fresh n g" "ks_pending n g" keyspace_host for n g
  by unfold_locales
    (auto simp: keyspace_host_def ks_ready_def ks_fresh_def ks_pending_def split: option.splits)

lemma ingest_loop_length: "ingest_loop h s reqs ids w = (Inr ids', w') \<Longrightarrow> length ids' = length ids + length reqs"
  by (induction h s reqs ids w rule: ingest_loop.induct) (auto split: prod.splits option.splits)

section \<open>Failure in a batch\<close>

text \<open>When publishing fails, the events of the requests before it stay published.\<close>

lemma ingest_loop_partial:
  assumes "ingest_loop h s reqs ids w = (Inl er, w')"
  shows "\<exists>done req rest ids' w1. reqs = done @ req # rest \<and> ingest_loop h s done ids w = (Inr ids', w1) \<and>
    length ids' = length ids + length done \<and> (let (e, w2) = new_raw_event h req w1 in buffer_event s e w2 = (Some er, w'))"
  using assms
proof (induction reqs arbitrary: ids w)
  case (Cons q reqs)
  obtain e w2 where e: "new_raw_event h q w = (e, w2)" by force
  obtain x w3 where x: "buffer_event s e w2 = (x, w3)" by force
  show ?case
  proof (cases x)
    case (Some err)
    then show ?thesis using Cons.prems e x by (intro exI [of _ "[]"] exI [of _ q] exI [of _ reqs] exI [of _ ids] exI [of _ w]) simp
  next
    case None
    then have "ingest_loop h s reqs (ids @ [re_EventID e]) w3 = (Inl er, w')" using Cons.prems e x by simp
    from Cons.IH [OF this] obtain d r rest ids' w1 where
      "reqs = d @ r # rest" "ingest_loop h s d (ids @ [re_EventID e]) w3 = (Inr ids', w1)"
      "length ids' = length (ids @ [re_EventID e]) + length d" "let (e, w2) = new_raw_event h r w1 in buffer_event s e w2 = (Some er, w')"
      by blast
    then show ?thesis using e x None
      by (intro exI [of _ "q # d"] exI [of _ r] exI [of _ rest] exI [of _ ids'] exI [of _ w1]) simp
  qed
qed simp

end
