(* ===== verification/Idempotency.thy ===== *)
theory Idempotency
  imports Redis_Client
begin

text \<open>
  \<open>internal/buffer/idempotency.go\<close>: the idempotency interface, its Redis and in-memory
  implementations, and the contract both keep while their backend answers.
\<close>

section \<open>Interface\<close>

record 'w IdempotencyStore =
  TryClaimProcessing :: "string \<Rightarrow> duration \<Rightarrow> 'w \<Rightarrow> bool result \<times> 'w"
  ReleaseProcessing :: "string \<Rightarrow> 'w \<Rightarrow> go_error option \<times> 'w"
  MarkDone :: "string \<Rightarrow> duration \<Rightarrow> 'w \<Rightarrow> go_error option \<times> 'w"
  IsDone :: "string \<Rightarrow> 'w \<Rightarrow> bool result \<times> 'w"

section \<open>Redis implementation\<close>

definition DefaultProcKeyPrefix :: string where
  "DefaultProcKeyPrefix = ''ulpf:proc:''"

definition DefaultDoneKeyPrefix :: string where
  "DefaultDoneKeyPrefix = ''ulpf:done:''"

definition redis_TryClaim :: "'w redis_client \<Rightarrow> string \<Rightarrow> duration \<Rightarrow> 'w \<Rightarrow> bool result \<times> 'w" where
  "redis_TryClaim c eventID ttl w =
     (case SetNX c (DefaultProcKeyPrefix @ eventID) ''1'' ttl w of
        (Inl e, w') \<Rightarrow> (Inl (redis_go_error e), w')
      | (Inr b, w') \<Rightarrow> (Inr b, w'))"

definition redis_Release :: "'w redis_client \<Rightarrow> string \<Rightarrow> 'w \<Rightarrow> go_error option \<times> 'w" where
  "redis_Release c eventID w =
     (case Del c (DefaultProcKeyPrefix @ eventID) w of (e, w') \<Rightarrow> (map_option redis_go_error e, w'))"

definition redis_MarkDone :: "'w redis_client \<Rightarrow> string \<Rightarrow> duration \<Rightarrow> 'w \<Rightarrow> go_error option \<times> 'w" where
  "redis_MarkDone c eventID ttl w =
     (case SetKey c (DefaultDoneKeyPrefix @ eventID) ''1'' ttl w of (e, w') \<Rightarrow> (map_option redis_go_error e, w'))"

definition redis_IsDone :: "'w redis_client \<Rightarrow> string \<Rightarrow> 'w \<Rightarrow> bool result \<times> 'w" where
  "redis_IsDone c eventID w =
     (case Exists c (DefaultDoneKeyPrefix @ eventID) w of
        (Inl e, w') \<Rightarrow> (Inl (redis_go_error e), w')
      | (Inr n, w') \<Rightarrow> (Inr (n > 0), w'))"

definition redis_idempotency :: "'w redis_client \<Rightarrow> 'w IdempotencyStore" where
  "redis_idempotency c =
     \<lparr>TryClaimProcessing = redis_TryClaim c, ReleaseProcessing = redis_Release c,
      MarkDone = redis_MarkDone c, IsDone = redis_IsDone c\<rparr>"

section \<open>In-memory implementation\<close>

text \<open>A missing key of a Go \<open>map[string]bool\<close> reads as \<open>false\<close>.\<close>

record MemoryIdempotencyStore =
  mi_processing :: "string \<rightharpoonup> bool"
  mi_done :: "string \<rightharpoonup> bool"

definition flag :: "(string \<rightharpoonup> bool) \<Rightarrow> string \<Rightarrow> bool" where
  "flag m k = (case m k of None \<Rightarrow> False | Some b \<Rightarrow> b)"

definition NewMemoryIdempotencyStore :: MemoryIdempotencyStore where
  "NewMemoryIdempotencyStore = \<lparr>mi_processing = Map.empty, mi_done = Map.empty\<rparr>"

definition memory_TryClaim :: "string \<Rightarrow> duration \<Rightarrow> 'a MemoryIdempotencyStore_scheme \<Rightarrow> bool result \<times> 'a MemoryIdempotencyStore_scheme" where
  "memory_TryClaim eventID ttl m =
     (if flag (mi_processing m) eventID then (Inr False, m)
      else (Inr True, m\<lparr>mi_processing := (mi_processing m)(eventID \<mapsto> True)\<rparr>))"

definition memory_Release :: "string \<Rightarrow> 'a MemoryIdempotencyStore_scheme \<Rightarrow> go_error option \<times> 'a MemoryIdempotencyStore_scheme" where
  "memory_Release eventID m = (None, m\<lparr>mi_processing := (mi_processing m)(eventID := None)\<rparr>)"

definition memory_MarkDone :: "string \<Rightarrow> duration \<Rightarrow> 'a MemoryIdempotencyStore_scheme \<Rightarrow> go_error option \<times> 'a MemoryIdempotencyStore_scheme" where
  "memory_MarkDone eventID ttl m =
     (None, m\<lparr>mi_done := (mi_done m)(eventID \<mapsto> True), mi_processing := (mi_processing m)(eventID := None)\<rparr>)"

definition memory_IsDone :: "string \<Rightarrow> 'a MemoryIdempotencyStore_scheme \<Rightarrow> bool result \<times> 'a MemoryIdempotencyStore_scheme" where
  "memory_IsDone eventID m = (Inr (flag (mi_done m) eventID), m)"

definition memory_idempotency :: "'a MemoryIdempotencyStore_scheme IdempotencyStore" where
  "memory_idempotency =
     \<lparr>TryClaimProcessing = memory_TryClaim, ReleaseProcessing = memory_Release,
      MarkDone = memory_MarkDone, IsDone = memory_IsDone\<rparr>"

section \<open>Contract\<close>

text \<open>
  \<open>locked w\<close> and \<open>finished w\<close> are the ids with a processing lock and with a completion
  marker; \<open>frees\<close> tells whether \<open>MarkDone\<close> also removes the lock.
\<close>

locale idempotency_store =
  fixes st :: "'w IdempotencyStore"
    and locked :: "'w \<Rightarrow> string set"
    and finished :: "'w \<Rightarrow> string set"
    and frees :: bool
  assumes claim_law: "0 < ttl \<Longrightarrow> \<exists>w'. TryClaimProcessing st e ttl w = (Inr (e \<notin> locked w), w') \<and>
      locked w' = insert e (locked w) \<and> finished w' = finished w"
    and release_law: "\<exists>w'. ReleaseProcessing st e w = (None, w') \<and>
      locked w' = locked w - {e} \<and> finished w' = finished w"
    and done_law: "0 < ttl \<Longrightarrow> \<exists>w'. MarkDone st e ttl w = (None, w') \<and>
      locked w' = (if frees then locked w - {e} else locked w) \<and> finished w' = insert e (finished w)"
    and query_law: "\<exists>w'. IsDone st e w = (Inr (e \<in> finished w), w') \<and>
      locked w' = locked w \<and> finished w' = finished w"

text \<open>The calls of a history, for statements about sequences of them.\<close>

datatype idem_op = Claim string | Release string | Mark string | Query string

fun op_effect :: "'w IdempotencyStore \<Rightarrow> duration \<Rightarrow> idem_op \<Rightarrow> 'w \<Rightarrow> 'w" where
  "op_effect st ttl (Claim e) w = snd (TryClaimProcessing st e ttl w)"
| "op_effect st ttl (Release e) w = snd (ReleaseProcessing st e w)"
| "op_effect st ttl (Mark e) w = snd (MarkDone st e ttl w)"
| "op_effect st ttl (Query e) w = snd (IsDone st e w)"

definition run_ops :: "'w IdempotencyStore \<Rightarrow> duration \<Rightarrow> idem_op list \<Rightarrow> 'w \<Rightarrow> 'w" where
  "run_ops st ttl ops w = fold (op_effect st ttl) ops w"

context idempotency_store
begin

lemma op_effect_sets:
  assumes "0 < ttl"
  shows "locked (op_effect st ttl (Claim e) w) = insert e (locked w)"
    and "locked (op_effect st ttl (Release e) w) = locked w - {e}"
    and "locked (op_effect st ttl (Mark e) w) = (if frees then locked w - {e} else locked w)"
    and "locked (op_effect st ttl (Query e) w) = locked w"
    and "finished (op_effect st ttl (Claim e) w) = finished w"
    and "finished (op_effect st ttl (Release e) w) = finished w"
    and "finished (op_effect st ttl (Mark e) w) = insert e (finished w)"
    and "finished (op_effect st ttl (Query e) w) = finished w"
  using claim_law [OF assms, of e w] release_law [of e w] done_law [OF assms, of e w] query_law [of e w]
  by auto

text \<open>A held lock stays held until its release (or its completion, where that frees it).\<close>

lemma lock_held:
  assumes "0 < ttl" and "e \<in> locked w" and "Release e \<notin> set ops" and "frees \<Longrightarrow> Mark e \<notin> set ops"
  shows "e \<in> locked (run_ops st ttl ops w)"
  using assms(2-4)
proof (induction ops arbitrary: w)
  case (Cons x ops)
  have "e \<in> locked (op_effect st ttl x w)"
    using Cons.prems by (cases x) (auto simp: op_effect_sets [OF assms(1)] simp del: op_effect.simps)
  then show ?case using Cons by (simp add: run_ops_def)
qed (simp add: run_ops_def)

lemma exclusive:
  assumes "0 < ttl" and "Release e \<notin> set ops" and "frees \<Longrightarrow> Mark e \<notin> set ops"
  shows "fst (TryClaimProcessing st e ttl (run_ops st ttl ops (snd (TryClaimProcessing st e ttl w)))) = Inr False"
proof -
  have "e \<in> locked (snd (TryClaimProcessing st e ttl w))" using claim_law [OF assms(1), of e w] by auto
  then have "e \<in> locked (run_ops st ttl ops (snd (TryClaimProcessing st e ttl w)))"
    using lock_held assms by blast
  then show ?thesis using claim_law [OF assms(1), of e "run_ops st ttl ops (snd (TryClaimProcessing st e ttl w))"]
    by auto
qed

text \<open>A completion marker stays, whatever follows.\<close>

lemma finished_mono: "0 < ttl \<Longrightarrow> finished w \<subseteq> finished (run_ops st ttl ops w)"
proof (induction ops arbitrary: w)
  case (Cons x ops)
  have "finished w \<subseteq> finished (op_effect st ttl x w)"
    by (cases x) (auto simp: op_effect_sets [OF Cons.prems] simp del: op_effect.simps)
  also have "\<dots> \<subseteq> finished (run_ops st ttl ops (op_effect st ttl x w))" using Cons by blast
  finally show ?case by (simp add: run_ops_def)
qed (simp add: run_ops_def)

lemma marked_is_done:
  assumes "0 < ttl"
  shows "fst (IsDone st e (run_ops st ttl ops (snd (MarkDone st e ttl w)))) = Inr True"
proof -
  have "e \<in> finished (snd (MarkDone st e ttl w))" using done_law [OF assms, of e w] by auto
  then have "e \<in> finished (run_ops st ttl ops (snd (MarkDone st e ttl w)))"
    using finished_mono [OF assms] by blast
  then show ?thesis using query_law [of e "run_ops st ttl ops (snd (MarkDone st e ttl w))"] by auto
qed

text \<open>A released lock can be taken again.\<close>

lemma reclaim: "0 < ttl \<Longrightarrow> fst (TryClaimProcessing st e ttl (snd (ReleaseProcessing st e w))) = Inr True"
  using release_law [of e w] claim_law [of ttl e "snd (ReleaseProcessing st e w)"] by auto

end

section \<open>Both implementations keep the contract\<close>

definition memory_locked :: "'a MemoryIdempotencyStore_scheme \<Rightarrow> string set" where
  "memory_locked m = {e. flag (mi_processing m) e}"

definition memory_finished :: "'a MemoryIdempotencyStore_scheme \<Rightarrow> string set" where
  "memory_finished m = {e. flag (mi_done m) e}"

interpretation memory: idempotency_store memory_idempotency memory_locked memory_finished True
  by unfold_locales
    (auto simp: memory_idempotency_def memory_TryClaim_def memory_Release_def memory_MarkDone_def
      memory_IsDone_def memory_locked_def memory_finished_def flag_def split: option.splits if_splits)

lemma key_prefixes_differ: "DefaultProcKeyPrefix @ e \<noteq> DefaultDoneKeyPrefix @ e'"
  by (simp add: DefaultProcKeyPrefix_def DefaultDoneKeyPrefix_def)

context redis_keys
begin

definition redis_locked :: "'w \<Rightarrow> string set" where
  "redis_locked w = {e. DefaultProcKeyPrefix @ e \<in> live w}"

definition redis_finished :: "'w \<Rightarrow> string set" where
  "redis_finished w = {e. DefaultDoneKeyPrefix @ e \<in> live w}"

lemmas redis_sets = redis_locked_def redis_finished_def key_prefixes_differ key_prefixes_differ [symmetric]

end

sublocale redis_keys \<subseteq> idem: idempotency_store "redis_idempotency client" redis_locked redis_finished False
proof
  fix e w and ttl :: duration
  assume ttl: "0 < ttl"
  let ?k = "DefaultProcKeyPrefix @ e"
  obtain w' where "SetNX client ?k ''1'' ttl w = (Inr (?k \<notin> live w), w')" "live w' = insert ?k (live w)"
    using setnx_new [of ?k w ttl "''1''"] setnx_old [of ?k w ttl "''1''"] ttl by (cases "?k \<in> live w") auto
  then show "\<exists>w'. TryClaimProcessing (redis_idempotency client) e ttl w = (Inr (e \<notin> redis_locked w), w') \<and>
      redis_locked w' = insert e (redis_locked w) \<and> redis_finished w' = redis_finished w"
    by (auto simp: redis_idempotency_def redis_TryClaim_def redis_sets)
next
  fix e w
  obtain w' where "Del client (DefaultProcKeyPrefix @ e) w = (None, w')"
      "live w' = live w - {DefaultProcKeyPrefix @ e}"
    using del_key by blast
  then show "\<exists>w'. ReleaseProcessing (redis_idempotency client) e w = (None, w') \<and>
      redis_locked w' = redis_locked w - {e} \<and> redis_finished w' = redis_finished w"
    by (auto simp: redis_idempotency_def redis_Release_def redis_sets)
next
  fix e w and ttl :: duration
  assume "0 < ttl"
  then obtain w' where "SetKey client (DefaultDoneKeyPrefix @ e) ''1'' ttl w = (None, w')"
      "live w' = insert (DefaultDoneKeyPrefix @ e) (live w)"
    using set_key by blast
  then show "\<exists>w'. MarkDone (redis_idempotency client) e ttl w = (None, w') \<and>
      redis_locked w' = (if False then redis_locked w - {e} else redis_locked w) \<and>
      redis_finished w' = insert e (redis_finished w)"
    by (auto simp: redis_idempotency_def redis_MarkDone_def redis_sets)
next
  fix e w
  obtain w' where "Exists client (DefaultDoneKeyPrefix @ e) w =
      (Inr (if DefaultDoneKeyPrefix @ e \<in> live w then 1 else 0), w')" "live w' = live w"
    using exists_key by blast
  then show "\<exists>w'. IsDone (redis_idempotency client) e w = (Inr (e \<in> redis_finished w), w') \<and>
      redis_locked w' = redis_locked w \<and> redis_finished w' = redis_finished w"
    by (auto simp: redis_idempotency_def redis_IsDone_def redis_sets)
qed

context redis_keys
begin

lemma redis_contract: "idempotency_store (redis_idempotency client) redis_locked redis_finished False"
  by (rule idem.idempotency_store_axioms)

end

end
