(* ===== verification/Raw_Store.thy ===== *)
theory Raw_Store
  imports Models
begin

text \<open>
  \<open>internal/storage/raw\<close>: the \<open>RawEventStore\<close> interface, the in-memory store of
  \<open>store.go\<close> and the object store of \<open>minio.go\<close> over a MinIO client, which is a parameter.

  An operation of a Go interface is a function of the world \<open>'w\<close> it acts on; it returns
  its result and the world afterwards.  An \<open>error\<close> result is \<open>None\<close> for \<open>nil\<close>.
\<close>

section \<open>Interface\<close>

record 'w RawEventStore =
  rs_Put :: "RawEvent option \<Rightarrow> 'w \<Rightarrow> go_error option \<times> 'w"
  rs_Get :: "string \<Rightarrow> 'w \<Rightarrow> RawEvent result \<times> 'w"
  rs_Close :: "'w \<Rightarrow> go_error option \<times> 'w"

section \<open>In-memory store\<close>

type_synonym MemoryRawStore = "string \<rightharpoonup> RawEvent"

definition NewMemoryRawStore :: MemoryRawStore where
  "NewMemoryRawStore = Map.empty"

definition mem_Put :: "RawEvent option \<Rightarrow> MemoryRawStore \<Rightarrow> go_error option \<times> MemoryRawStore" where
  "mem_Put event m = (case event of
       None \<Rightarrow> (Some (Errorf ''invalid raw event or missing event_id''), m)
     | Some e \<Rightarrow>
         if re_EventID e = [] then (Some (Errorf ''invalid raw event or missing event_id''), m)
         else (None, m(re_EventID e \<mapsto> e)))"

definition mem_Get :: "string \<Rightarrow> MemoryRawStore \<Rightarrow> RawEvent result \<times> MemoryRawStore" where
  "mem_Get eventID m = (case m eventID of
       None \<Rightarrow> (Inl (Errorf (''raw event '' @ eventID @ '' not found'')), m)
     | Some e \<Rightarrow> (Inr e, m))"

definition mem_Close :: "MemoryRawStore \<Rightarrow> go_error option \<times> MemoryRawStore" where
  "mem_Close m = (None, m)"

definition memory_raw_store :: "MemoryRawStore RawEventStore" where
  "memory_raw_store = \<lparr>rs_Put = mem_Put, rs_Get = mem_Get, rs_Close = mem_Close\<rparr>"

text \<open>The same store as an object in the memory of a process, read with \<open>get\<close> and written with \<open>put\<close>.\<close>

definition memory_store_in :: "('w \<Rightarrow> MemoryRawStore) \<Rightarrow> (MemoryRawStore \<Rightarrow> 'w \<Rightarrow> 'w) \<Rightarrow> 'w RawEventStore" where
  "memory_store_in get put =
     \<lparr>rs_Put = \<lambda>e w. (case mem_Put e (get w) of (r, m) \<Rightarrow> (r, put m w)),
      rs_Get = \<lambda>i w. (case mem_Get i (get w) of (r, m) \<Rightarrow> (r, put m w)),
      rs_Close = \<lambda>w. (case mem_Close (get w) of (r, m) \<Rightarrow> (r, put m w))\<rparr>"

section \<open>MinIO store\<close>

text \<open>
  The client: \<open>PutObject bucket name data\<close>; \<open>GetObject\<close>, which does no I/O; reading the object
  with \<open>io.ReadAll\<close>; \<open>BucketExists\<close>; \<open>MakeBucket\<close>.
\<close>

record 'w minio_client =
  PutObject :: "string \<Rightarrow> string \<Rightarrow> string \<Rightarrow> 'w \<Rightarrow> go_error option \<times> 'w"
  GetObject :: "string \<Rightarrow> string \<Rightarrow> 'w \<Rightarrow> go_error option \<times> 'w"
  ReadObject :: "string \<Rightarrow> string \<Rightarrow> 'w \<Rightarrow> string result \<times> 'w"
  BucketExists :: "string \<Rightarrow> 'w \<Rightarrow> bool result \<times> 'w"
  MakeBucket :: "string \<Rightarrow> 'w \<Rightarrow> go_error option \<times> 'w"

record MinIOConfig =
  mc_Endpoint :: string
  mc_AccessKeyID :: string
  mc_SecretAccessKey :: string
  mc_UseSSL :: bool
  mc_BucketName :: string

record 'w MinIORawStore =
  ms_client :: "'w minio_client"
  ms_bucket :: string

text \<open>\<open>new\<close> is \<open>minio.New\<close>: it takes the endpoint, the two keys and the TLS flag.\<close>

definition NewMinIORawStore ::
  "(string \<Rightarrow> string \<Rightarrow> string \<Rightarrow> bool \<Rightarrow> 'w minio_client result) \<Rightarrow> MinIOConfig \<Rightarrow> 'w \<Rightarrow> 'w MinIORawStore result \<times> 'w" where
  "NewMinIORawStore new cfg0 w =
     (let cfg = cfg0\<lparr>mc_BucketName := or_default (mc_BucketName cfg0) ''raw-events''\<rparr>;
          bucket = mc_BucketName cfg
      in case new (mc_Endpoint cfg) (mc_AccessKeyID cfg) (mc_SecretAccessKey cfg) (mc_UseSSL cfg) of
           Inl err \<Rightarrow> (Inl (Wrap ''failed to create minio client'' err), w)
         | Inr client \<Rightarrow>
             (case BucketExists client bucket w of
                (Inl err, w1) \<Rightarrow> (Inl (Wrap ''failed to check bucket existence'' err), w1)
              | (Inr True, w1) \<Rightarrow> (Inr \<lparr>ms_client = client, ms_bucket = bucket\<rparr>, w1)
              | (Inr False, w1) \<Rightarrow>
                  (case MakeBucket client bucket w1 of
                     (Some err, w2) \<Rightarrow> (Inl (Wrap (''failed to create bucket '' @ bucket) err), w2)
                   | (None, w2) \<Rightarrow> (Inr \<lparr>ms_client = client, ms_bucket = bucket\<rparr>, w2))))"

definition object_name :: "string \<Rightarrow> string" where
  "object_name eventID = eventID @ ''.json''"

definition minio_Put :: "'w MinIORawStore \<Rightarrow> RawEvent option \<Rightarrow> 'w \<Rightarrow> go_error option \<times> 'w" where
  "minio_Put s event w = (case event of
       None \<Rightarrow> (Some (Errorf ''invalid raw event or empty event_id''), w)
     | Some e \<Rightarrow>
         if re_EventID e = [] then (Some (Errorf ''invalid raw event or empty event_id''), w)
         else (case PutObject (ms_client s) (ms_bucket s) (object_name (re_EventID e))
                      (json_print (raw_event_json e)) w of
                 (Some err, w1) \<Rightarrow> (Some (Wrap ''failed to store raw event in minio'' err), w1)
               | (None, w1) \<Rightarrow> (None, w1)))"

definition minio_Get :: "'w MinIORawStore \<Rightarrow> string \<Rightarrow> 'w \<Rightarrow> RawEvent result \<times> 'w" where
  "minio_Get s eventID w =
     (case GetObject (ms_client s) (ms_bucket s) (object_name eventID) w of
        (Some err, w1) \<Rightarrow> (Inl (Wrap ''failed to get raw event object'' err), w1)
      | (None, w1) \<Rightarrow>
          (case ReadObject (ms_client s) (ms_bucket s) (object_name eventID) w1 of
             (Inl err, w2) \<Rightarrow> (Inl (Wrap ''failed to read raw event content'' err), w2)
           | (Inr data, w2) \<Rightarrow>
               (case dec_raw_event data of
                  Inl err \<Rightarrow> (Inl (Wrap ''failed to unmarshal raw event'' err), w2)
                | Inr e \<Rightarrow> (Inr e, w2))))"

definition minio_raw_store :: "'w MinIORawStore \<Rightarrow> 'w RawEventStore" where
  "minio_raw_store s = \<lparr>rs_Put = minio_Put s, rs_Get = minio_Get s, rs_Close = \<lambda>w. (None, w)\<rparr>"

section \<open>Contract of a raw store\<close>

text \<open>
  \<open>events w\<close> is the abstract content of the store, \<open>repr e\<close> what it keeps of an event (an
  object store repairs ill-formed UTF-8).
\<close>

locale raw_event_store =
  fixes st :: "'w RawEventStore"
    and events :: "'w \<Rightarrow> (string \<rightharpoonup> RawEvent)"
    and repr :: "RawEvent \<Rightarrow> RawEvent"
  assumes put_nil: "\<exists>er. rs_Put st None w = (Some er, w)"
    and put_no_id: "re_EventID e = [] \<Longrightarrow> \<exists>er. rs_Put st (Some e) w = (Some er, w)"
    and put_ok: "re_EventID e \<noteq> [] \<Longrightarrow>
      \<exists>w'. rs_Put st (Some e) w = (None, w') \<and> events w' = (events w)(re_EventID e \<mapsto> repr e)"
    and get_found: "events w i = Some e \<Longrightarrow> rs_Get st i w = (Inr e, w)"
    and get_missing: "events w i = None \<Longrightarrow> \<exists>er. rs_Get st i w = (Inl er, w)"
begin

text \<open>The store after a sequence of writes.\<close>

definition put_all :: "RawEvent list \<Rightarrow> 'w \<Rightarrow> 'w" where
  "put_all es w = fold (\<lambda>e w. snd (rs_Put st (Some e) w)) es w"

lemma put_events:
  "events (snd (rs_Put st (Some e) w)) = (if re_EventID e = [] then events w else (events w)(re_EventID e \<mapsto> repr e))"
  using put_ok [of e w] put_no_id [of e w] by auto

lemma put_then_get:
  "re_EventID e \<noteq> [] \<Longrightarrow> rs_Put st (Some e) w = (r, w') \<Longrightarrow> rs_Get st (re_EventID e) w' = (Inr (repr e), w')"
  using put_ok [of e w] by (auto intro: get_found)

lemma put_keeps_others:
  assumes "i \<noteq> re_EventID e" and "events w i = Some e'"
  shows "fst (rs_Get st i (snd (rs_Put st (Some e) w))) = Inr e'"
  using assms put_events [of e w] get_found [of "snd (rs_Put st (Some e) w)" i e'] by simp

lemma put_all_keeps:
  "\<forall>e \<in> set es. re_EventID e \<noteq> i \<Longrightarrow> events (put_all es w) i = events w i"
  by (induction es arbitrary: w) (auto simp: put_all_def put_events)

text \<open>The last write under an id wins, whatever was written before it.\<close>

lemma put_all_last:
  assumes "re_EventID e \<noteq> []" and "\<forall>e' \<in> set later. re_EventID e' \<noteq> re_EventID e"
  shows "rs_Get st (re_EventID e) (put_all (earlier @ e # later) w) = (Inr (repr e), put_all (earlier @ e # later) w)"
proof (rule get_found)
  have "put_all (earlier @ e # later) w = put_all later (snd (rs_Put st (Some e) (put_all earlier w)))"
    by (simp add: put_all_def)
  then show "events (put_all (earlier @ e # later) w) (re_EventID e) = Some (repr e)"
    using put_all_keeps [OF assms(2)] assms(1) by (simp add: put_events)
qed

lemma never_put:
  assumes "\<forall>e \<in> set es. re_EventID e \<noteq> i" and "events w i = None"
  shows "\<exists>er. fst (rs_Get st i (put_all es w)) = Inl er"
  using get_missing [of "put_all es w" i] put_all_keeps [OF assms(1)] assms(2) by auto

end

interpretation mem: raw_event_store memory_raw_store "\<lambda>m. m" "\<lambda>e. e"
  by unfold_locales (auto simp: memory_raw_store_def mem_Put_def mem_Get_def)

text \<open>A memory cell returns what was written last; a store in it keeps the contract.\<close>

locale memory_cell =
  fixes get :: "'w \<Rightarrow> MemoryRawStore"
    and put :: "MemoryRawStore \<Rightarrow> 'w \<Rightarrow> 'w"
  assumes get_put: "get (put m w) = m"
    and put_get: "put (get w) w = w"

sublocale memory_cell \<subseteq> cell: raw_event_store "memory_store_in get put" get "\<lambda>e. e"
  by unfold_locales
    (auto simp: memory_store_in_def mem_Put_def mem_Get_def get_put put_get split: option.splits)

section \<open>Reliance on the object store\<close>

text \<open>
  A bucket whose requests succeed: an object written under a name is what is read under it.
\<close>

locale object_bucket =
  fixes client :: "'w minio_client"
    and bucket :: string
    and objects :: "'w \<Rightarrow> (string \<rightharpoonup> string)"
  assumes put_object: "\<exists>w'. PutObject client bucket n d w = (None, w') \<and> objects w' = (objects w)(n \<mapsto> d)"
    and get_object: "GetObject client bucket n w = (None, w)"
    and read_object: "objects w n = Some d \<Longrightarrow> ReadObject client bucket n w = (Inr d, w)"
    and read_missing: "objects w n = None \<Longrightarrow> \<exists>er. ReadObject client bucket n w = (Inl er, w)"
begin

definition stored_events :: "'w \<Rightarrow> (string \<rightharpoonup> RawEvent)" where
  "stored_events w i = (case objects w (object_name i) of
       None \<Rightarrow> None
     | Some d \<Rightarrow> (case dec_raw_event d of Inl _ \<Rightarrow> None | Inr e \<Rightarrow> Some e))"

end

sublocale object_bucket \<subseteq> store: raw_event_store "minio_raw_store \<lparr>ms_client = client, ms_bucket = bucket\<rparr>" stored_events coerce_raw_event
proof
  fix e :: RawEvent and w
  assume "re_EventID e \<noteq> []"
  moreover obtain w' where w': "PutObject client bucket (object_name (re_EventID e)) (json_print (raw_event_json e)) w = (None, w')"
      "objects w' = (objects w)(object_name (re_EventID e) \<mapsto> json_print (raw_event_json e))"
    using put_object by blast
  moreover have "stored_events w' = (stored_events w)(re_EventID e \<mapsto> coerce_raw_event e)"
    by (auto simp: stored_events_def w'(2) dec_raw_event_print object_name_def fun_eq_iff)
  ultimately show "\<exists>w'. rs_Put (minio_raw_store \<lparr>ms_client = client, ms_bucket = bucket\<rparr>) (Some e) w = (None, w') \<and>
      stored_events w' = (stored_events w)(re_EventID e \<mapsto> coerce_raw_event e)"
    by (simp add: minio_raw_store_def minio_Put_def)
next
  fix w i and e :: RawEvent
  assume "stored_events w i = Some e"
  then obtain d where "objects w (object_name i) = Some d" "dec_raw_event d = Inr e"
    by (auto simp: stored_events_def split: option.splits sum.splits)
  then show "rs_Get (minio_raw_store \<lparr>ms_client = client, ms_bucket = bucket\<rparr>) i w = (Inr e, w)"
    by (simp add: minio_raw_store_def minio_Get_def get_object read_object)
next
  fix w i
  assume "stored_events w i = None"
  then show "\<exists>er. rs_Get (minio_raw_store \<lparr>ms_client = client, ms_bucket = bucket\<rparr>) i w = (Inl er, w)"
    using read_missing [of w "object_name i"]
    by (auto simp: stored_events_def minio_raw_store_def minio_Get_def get_object read_object
        split: option.splits sum.splits)
qed (auto simp: minio_raw_store_def minio_Put_def)

context object_bucket
begin

lemma minio_last_write:
  assumes "re_EventID e \<noteq> []" and "\<forall>e' \<in> set later. re_EventID e' \<noteq> re_EventID e"
  shows "fst (minio_Get \<lparr>ms_client = client, ms_bucket = bucket\<rparr> (re_EventID e)
      (fold (\<lambda>e w. snd (minio_Put \<lparr>ms_client = client, ms_bucket = bucket\<rparr> (Some e) w)) (earlier @ e # later) w)) =
    Inr (coerce_raw_event e)"
  using store.put_all_last [OF assms, of earlier w]
  unfolding store.put_all_def by (simp add: minio_raw_store_def)

end

text \<open>A client that meets the reliance: a map from bucket and name to content.\<close>

type_synonym object_map = "string \<times> string \<rightharpoonup> string"

definition map_client :: "object_map minio_client" where
  "map_client =
     \<lparr>PutObject = \<lambda>b n d m. (None, m((b, n) \<mapsto> d)),
      GetObject = \<lambda>b n m. (None, m),
      ReadObject = \<lambda>b n m. (case m (b, n) of
         Some d \<Rightarrow> (Inr d, m) | None \<Rightarrow> (Inl (Remote ''The specified key does not exist.''), m)),
      BucketExists = \<lambda>b m. (Inr True, m),
      MakeBucket = \<lambda>b m. (None, m)\<rparr>"

interpretation map_bucket: object_bucket map_client bucket "\<lambda>m n. m (bucket, n)" for bucket
  by unfold_locales (auto simp: map_client_def)

end
