(* ===== verification/Go_Csv.thy ===== *)
theory Go_Csv
  imports Go_Text
begin

text \<open>
  \<open>encoding/csv\<close> as the program configures it: comma separated, leading space
  trimmed, no lazy quotes, no comments, and every record as long as the first one
  (\<open>FieldsPerRecord = 0\<close>).
\<close>

section \<open>Lines\<close>

definition newline :: char where
  "newline = CHR 0x0A"

text \<open>
  \<open>readLine\<close>: a line keeps its newline, \<open>\r\n\<close> becomes \<open>\n\<close>, and a carriage return
  at the end of the input is dropped.
\<close>

definition norm_line :: "string \<Rightarrow> string" where
  "norm_line l =
     (if suffix [CHR 0x0D, newline] l then take (length l - 2) l @ [newline]
      else if suffix [CHR 0x0D] l then butlast l else l)"

fun csv_lines :: "string \<Rightarrow> string \<Rightarrow> string list" where
  "csv_lines acc [] = (if acc = [] then [] else [norm_line (rev acc)])"
| "csv_lines acc (c # cs) =
     (if c = newline then norm_line (rev (c # acc)) # csv_lines [] cs else csv_lines (c # acc) cs)"

section \<open>Records\<close>

text \<open>
  The field loop of \<open>readRecord\<close>: \<open>None\<close> at the start of a field, \<open>Some buf\<close> inside
  a quoted field with the text read so far; \<open>fs\<close> are the finished fields in reverse,
  \<open>later\<close> the lines not read yet.
\<close>

definition drop_newline :: "string \<Rightarrow> string" where
  "drop_newline l = (if suffix [newline] l then butlast l else l)"

abbreviation quote :: char where "quote \<equiv> CHR 0x22"
abbreviation comma :: char where "comma \<equiv> CHR '',''"

lemma trim_left_space_length: "length (trim_left_space s) \<le> length s"
  by (simp add: trim_left_space_def strip_length)

lemma trim_left_space_Cons: "trim_left_space s = c # cs \<Longrightarrow> length cs < length s"
  using trim_left_space_length [of s] by simp

lemma dropWhile_Cons_length: "dropWhile P s = c # cs \<Longrightarrow> length cs < length s"
  by (metis length_dropWhile_le length_Cons less_Suc_eq_le less_le_trans lessI)

lemma dropWhile_trim_length:
  "dropWhile P (trim_left_space s) = c # cs \<Longrightarrow> length cs < length s"
  using dropWhile_Cons_length [of P "trim_left_space s" c cs] trim_left_space_length [of s] by simp

lemma tl_trim_length: "prefix [q] (trim_left_space s) \<Longrightarrow> length (trim_left_space s) - Suc 0 < length s"
  using trim_left_space_length [of s] by (cases "trim_left_space s") auto

lemma tl_drop_length: "dropWhile P s = c # cs \<Longrightarrow> length cs - Suc 0 < length s"
  using dropWhile_Cons_length [of P s c cs] by simp

function (sequential) csv_scan ::
  "string option \<Rightarrow> string list \<Rightarrow> string \<Rightarrow> string list \<Rightarrow> (string list \<times> string list) result" where
  "csv_scan None fs line later =
     (let ln = trim_left_space line in
      if prefix [quote] ln then csv_scan (Some []) fs (tl ln) later
      else (case dropWhile (\<lambda>c. c \<noteq> comma) ln of
              [] \<Rightarrow> (let f = drop_newline ln in
                     if quote \<in> set f then Inl CsvBareQuote else Inr (rev (f # fs), later))
            | _ # r \<Rightarrow> (let f = takeWhile (\<lambda>c. c \<noteq> comma) ln in
                        if quote \<in> set f then Inl CsvBareQuote else csv_scan None (f # fs) r later)))"
| "csv_scan (Some buf) fs line later =
     (case dropWhile (\<lambda>c. c \<noteq> quote) line of
        _ # ln \<Rightarrow>
          (let buf' = buf @ takeWhile (\<lambda>c. c \<noteq> quote) line in
           if prefix [quote] ln then csv_scan (Some (buf' @ [quote])) fs (tl ln) later
           else if prefix [comma] ln then csv_scan None (buf' # fs) (tl ln) later
           else if ln = [] \<or> ln = [newline] then Inr (rev (buf' # fs), later)
           else Inl CsvQuote)
      | [] \<Rightarrow>
          if line = [] then Inl CsvQuote
          else (case later of [] \<Rightarrow> Inl CsvQuote
                | l # ls \<Rightarrow> csv_scan (Some (buf @ line)) fs l ls))"
  by pat_completeness auto
termination
  by (relation "measure (\<lambda>(m, fs, line, later). length line + sum_list (map (\<lambda>l. Suc (length l)) later))")
    (auto dest: dropWhile_Cons_length dropWhile_trim_length intro: tl_trim_length tl_drop_length)

declare csv_scan.simps [simp del]

text \<open>
  \<open>ReadAll\<close>: empty lines are skipped, the first error ends the run, a record of
  another length than the first is an error.  The length test on the remaining lines
  always holds (\<open>csv_scan_later\<close>).
\<close>

function (sequential) csv_read :: "nat \<Rightarrow> string list \<Rightarrow> string list list result" where
  "csv_read n [] = Inr []"
| "csv_read n (l # ls) =
     (if l = [] \<or> l = [newline] then csv_read n ls
      else (case csv_scan None [] l ls of
              Inl e \<Rightarrow> Inl e
            | Inr (fs, rest) \<Rightarrow>
                if n \<noteq> 0 \<and> length fs \<noteq> n then Inl CsvFieldCount
                else if length rest \<le> length ls then
                  (case csv_read (length fs) rest of Inl e \<Rightarrow> Inl e | Inr rs \<Rightarrow> Inr (fs # rs))
                else Inl CsvQuote))"
  by pat_completeness auto
termination
  by (relation "measure (\<lambda>(n, ls). length ls)") auto

declare csv_read.simps(2) [simp del]

definition csv_read_all :: "string \<Rightarrow> string list list result" where
  "csv_read_all s = csv_read 0 (csv_lines [] s)"

section \<open>Laws\<close>

lemma csv_scan_later:
  "csv_scan m fs line later = Inr (r, rest) \<Longrightarrow> length rest \<le> length later \<and> length fs < length r"
proof (induction m fs line later rule: csv_scan.induct)
  case (1 fs line later)
  let ?ln = "trim_left_space line"
  show ?case
  proof (cases "prefix [quote] ?ln")
    case True
    with "1.prems" have "csv_scan (Some []) fs (tl ?ln) later = Inr (r, rest)"
      unfolding csv_scan.simps(1) [of fs line] Let_def by simp
    then show ?thesis by (rule "1.IH"(1) [OF refl True])
  next
    case False
    show ?thesis
    proof (cases "dropWhile (\<lambda>c. c \<noteq> comma) ?ln")
      case Nil
      have "csv_scan None fs line later =
          (if quote \<in> set (drop_newline ?ln) then Inl CsvBareQuote else Inr (rev (drop_newline ?ln # fs), later))"
        unfolding csv_scan.simps(1) [of fs line] Let_def Nil using False by simp
      then show ?thesis using "1.prems" by (auto split: if_splits)
    next
      case (Cons c cs)
      let ?f = "takeWhile (\<lambda>c. c \<noteq> comma) ?ln"
      have "quote \<notin> set ?f \<and> csv_scan None (?f # fs) cs later = Inr (r, rest)"
        using "1.prems" False
        unfolding csv_scan.simps(1) [of fs line] Let_def Cons by (simp split: if_splits)
      then show ?thesis using "1.IH"(2) [OF refl False Cons refl] by simp
    qed
  qed
next
  case (2 buf fs line later)
  show ?case
  proof (cases "dropWhile (\<lambda>c. c \<noteq> quote) line")
    case Nil
    then obtain l ls where "line \<noteq> []" "later = l # ls" "csv_scan (Some (buf @ line)) fs l ls = Inr (r, rest)"
      using "2.prems" unfolding csv_scan.simps(2) [of buf fs line] Nil
      by (auto split: if_splits list.splits)
    then show ?thesis using "2.IH"(1) [OF Nil, of l ls] by simp
  next
    case (Cons q ln)
    let ?b = "buf @ takeWhile (\<lambda>c. c \<noteq> quote) line"
    consider "prefix [quote] ln" "csv_scan (Some (?b @ [quote])) fs (tl ln) later = Inr (r, rest)"
      | "\<not> prefix [quote] ln" "prefix [comma] ln" "csv_scan None (?b # fs) (tl ln) later = Inr (r, rest)"
      | "r = rev (?b # fs)" "rest = later"
      using "2.prems" unfolding csv_scan.simps(2) [of buf fs line] Cons Let_def
      by (auto split: if_splits)
    then show ?thesis
      by cases (use "2.IH"(2,3) [OF Cons refl] in simp_all)
  qed
qed

text \<open>All records of a successful read have the same positive number of fields.\<close>

lemma csv_read_uniform:
  "csv_read n ls = Inr rs \<Longrightarrow> \<exists>k. 0 < k \<and> (n \<noteq> 0 \<longrightarrow> k = n) \<and> (\<forall>r \<in> set rs. length r = k)"
proof (induction n ls arbitrary: rs rule: csv_read.induct)
  case (1 n)
  then show ?case by (cases n) auto
next
  case (2 n l ls)
  show ?case
  proof (cases "l = [] \<or> l = [newline]")
    case True
    then show ?thesis using 2 by (simp add: csv_read.simps(2))
  next
    case False
    then obtain fs rest rs' where s: "csv_scan None [] l ls = Inr (fs, rest)" "n \<noteq> 0 \<longrightarrow> length fs = n"
        "csv_read (length fs) rest = Inr rs'" "rs = fs # rs'" "length rest \<le> length ls"
      using "2.prems" by (auto simp: csv_read.simps(2) split: sum.splits if_splits)
    have "0 < length fs" using csv_scan_later [OF s(1)] by simp
    with "2.IH"(2) [OF False, of "(fs, rest)" fs rest rs'] s show ?thesis by auto
  qed
qed

lemma csv_read_all_uniform:
  "csv_read_all s = Inr rs \<Longrightarrow> r \<in> set rs \<Longrightarrow> r' \<in> set rs \<Longrightarrow> length r = length r'"
  unfolding csv_read_all_def by (drule csv_read_uniform) auto

end
