(* ===== verification/Go_Regexp.thy ===== *)
theory Go_Regexp
  imports Go_Text
begin

text \<open>
  The regular expressions of the program and Go's matching rule for them.
  \<open>regexp\<close> finds the leftmost match and, among the matches that start there,
  the one a backtracking search finds first.  The search is the list of its
  successes in order, so its result is the head of the list.  Repetition occurs
  in the program's expressions only on character classes.
\<close>

section \<open>Expressions\<close>

datatype char_class =
    Lit char
  | FoldLit char        \<comment> \<open>an upper-case letter under \<open>(?i)\<close>\<close>
  | Digit               \<comment> \<open>\<open>\d\<close>\<close>
  | Upper               \<comment> \<open>\<open>[A-Z]\<close>\<close>
  | Lower               \<comment> \<open>\<open>[a-z]\<close>\<close>
  | Space               \<comment> \<open>\<open>\s\<close>\<close>
  | NonSpace            \<comment> \<open>\<open>\S\<close>, \<open>[^\s]\<close>\<close>
  | TorSpace            \<comment> \<open>\<open>[T\s]\<close>\<close>
  | NotNewline          \<comment> \<open>\<open>.\<close>\<close>
  | FoldName            \<comment> \<open>\<open>[A-Z_]\<close> under \<open>(?i)\<close>\<close>

datatype rx =
    One char_class
  | Star char_class
  | Cat "rx list"
  | Alt "rx list"
  | Opt rx
  | Cap rx
  | Begin
  | End
  | WordBoundary

abbreviation Plus :: "char_class \<Rightarrow> rx" where
  "Plus c \<equiv> Cat [One c, Star c]"

definition Times :: "nat \<Rightarrow> char_class \<Rightarrow> rx" where
  "Times n c = Cat (replicate n (One c))"

definition Word :: "string \<Rightarrow> rx" where
  "Word w = Cat (map (\<lambda>c. One (Lit c)) w)"

definition FoldWord :: "string \<Rightarrow> rx" where
  "FoldWord w = Cat (map (\<lambda>c. One (FoldLit c)) w)"

section \<open>Matching\<close>

definition rx_space :: "char \<Rightarrow> bool" where
  "rx_space c \<longleftrightarrow> c \<in> {CHR 0x09, CHR 0x0A, CHR 0x0C, CHR 0x0D, CHR '' ''}"

definition is_upper :: "char \<Rightarrow> bool" where
  "is_upper c \<longleftrightarrow> 65 \<le> byte c \<and> byte c \<le> 90"

definition is_lower :: "char \<Rightarrow> bool" where
  "is_lower c \<longleftrightarrow> 97 \<le> byte c \<and> byte c \<le> 122"

text \<open>
  The number of bytes a class consumes at the head of the input, 0 for no match.
  Under \<open>(?i)\<close> the letter \<open>S\<close> also matches U+017F and the range \<open>[A-Z]\<close> also
  U+017F and U+212A.  A negated class consumes a rune of several bytes byte by byte.
\<close>

definition class_width :: "char_class \<Rightarrow> string \<Rightarrow> nat" where
  "class_width k s = (case s of
       [] \<Rightarrow> 0
     | c # _ \<Rightarrow> (case k of
           Lit l \<Rightarrow> if c = l then 1 else 0
         | FoldLit l \<Rightarrow> if ascii_upper c = l then 1
                        else if l = CHR ''S'' \<and> prefix [CHR 0xC5, CHR 0xBF] s then 2
                        else if l = CHR ''K'' \<and> prefix [CHR 0xE2, CHR 0x84, CHR 0xAA] s then 3
                        else 0
         | Digit \<Rightarrow> if is_digit c then 1 else 0
         | Upper \<Rightarrow> if is_upper c then 1 else 0
         | Lower \<Rightarrow> if is_lower c then 1 else 0
         | Space \<Rightarrow> if rx_space c then 1 else 0
         | NonSpace \<Rightarrow> if rx_space c then 0 else 1
         | TorSpace \<Rightarrow> if c = CHR ''T'' \<or> rx_space c then 1 else 0
         | NotNewline \<Rightarrow> if c = CHR 0x0A then 0 else 1
         | FoldName \<Rightarrow> if is_upper c \<or> is_lower c \<or> c = CHR ''_'' then 1
                       else if prefix [CHR 0xC5, CHR 0xBF] s then 2
                       else if prefix [CHR 0xE2, CHR 0x84, CHR 0xAA] s then 3
                       else 0))"

text \<open>A position: the byte before it, the input from it, the captures so far.\<close>

type_synonym pos = "char option \<times> string \<times> string list"

definition word_char :: "char \<Rightarrow> bool" where
  "word_char c \<longleftrightarrow> is_digit c \<or> is_upper c \<or> is_lower c \<or> c = CHR ''_''"

definition advance :: "nat \<Rightarrow> pos \<Rightarrow> pos" where
  "advance n p = (case p of (b, s, cs) \<Rightarrow> (Some (s ! (n - 1)), drop n s, cs))"

function star_ends :: "char_class \<Rightarrow> char option \<Rightarrow> string \<Rightarrow> string list \<Rightarrow> pos list" where
  "star_ends k b s cs =
     (let n = class_width k s in
      if n = 0 \<or> s = [] then [(b, s, cs)]
      else star_ends k (Some (s ! (n - 1))) (drop n s) cs @ [(b, s, cs)])"
  by pat_completeness auto
termination
  by (relation "measure (\<lambda>(k, b, s, cs). length s)") auto

declare star_ends.simps [simp del]

fun rx_match :: "rx \<Rightarrow> pos \<Rightarrow> pos list"
  and rx_match_seq :: "rx list \<Rightarrow> pos \<Rightarrow> pos list"
  and rx_match_alt :: "rx list \<Rightarrow> pos \<Rightarrow> pos list" where
  "rx_match (One k) p =
     (case p of (b, s, cs) \<Rightarrow> let n = class_width k s in if n = 0 then [] else [advance n p])"
| "rx_match (Star k) p = (case p of (b, s, cs) \<Rightarrow> star_ends k b s cs)"
| "rx_match (Cat rs) p = rx_match_seq rs p"
| "rx_match (Alt rs) p = rx_match_alt rs p"
| "rx_match (Opt r) p = rx_match r p @ [p]"
| "rx_match (Cap r) p =
     map (\<lambda>(b, s, cs). (b, s, cs @ [take (length (fst (snd p)) - length s) (fst (snd p))])) (rx_match r p)"
| "rx_match Begin p = (if fst p = None then [p] else [])"
| "rx_match End p = (if fst (snd p) = [] then [p] else [])"
| "rx_match WordBoundary p =
     (case p of (b, s, cs) \<Rightarrow>
        let left = (case b of None \<Rightarrow> False | Some c \<Rightarrow> word_char c);
            right = (case s of [] \<Rightarrow> False | c # _ \<Rightarrow> word_char c)
        in if left \<noteq> right then [p] else [])"
| "rx_match_seq [] p = [p]"
| "rx_match_seq (r # rs) p = concat (map (rx_match_seq rs) (rx_match r p))"
| "rx_match_alt [] p = []"
| "rx_match_alt (r # rs) p = rx_match r p @ rx_match_alt rs p"

text \<open>The leftmost match at or after a position.\<close>

fun rx_find :: "rx \<Rightarrow> char option \<Rightarrow> string \<Rightarrow> pos option" where
  "rx_find r b s = (case rx_match r (b, s, []) of
       p # _ \<Rightarrow> Some p
     | [] \<Rightarrow> (case s of [] \<Rightarrow> None | c # cs \<Rightarrow> rx_find r (Some c) cs))"

declare rx_find.simps [simp del]

definition match_string :: "rx \<Rightarrow> string \<Rightarrow> bool" where
  "match_string r s \<longleftrightarrow> rx_find r None s \<noteq> None"

text \<open>\<open>FindStringSubmatch\<close>: the captures of the first match.\<close>

definition find_submatch :: "rx \<Rightarrow> string \<Rightarrow> string list option" where
  "find_submatch r s = map_option (\<lambda>(b, t, cs). cs) (rx_find r None s)"

text \<open>
  \<open>FindAllStringSubmatch(s, -1)\<close> for an expression that never matches the empty
  string: successive non-overlapping matches.
\<close>

function find_all_from :: "rx \<Rightarrow> char option \<Rightarrow> string \<Rightarrow> string list list" where
  "find_all_from r b s = (case rx_find r b s of
       None \<Rightarrow> []
     | Some (b', t, cs) \<Rightarrow> cs # (if length t < length s then find_all_from r b' t else []))"
  by pat_completeness auto
termination
  by (relation "measure (\<lambda>(r, b, s). length s)") auto

declare find_all_from.simps [simp del]

definition find_all_submatch :: "rx \<Rightarrow> string \<Rightarrow> string list list" where
  "find_all_submatch r s = find_all_from r None s"

section \<open>Laws\<close>

abbreviation pos_rest :: "pos \<Rightarrow> string" where "pos_rest p \<equiv> fst (snd p)"
abbreviation pos_caps :: "pos \<Rightarrow> string list" where "pos_caps p \<equiv> snd (snd p)"

lemma class_width_Nil [simp]: "class_width k [] = 0"
  by (simp add: class_width_def)

text \<open>A concatenation matches through intermediate positions.\<close>

lemma rx_match_seq_ConsE:
  assumes "p' \<in> set (rx_match_seq (r # rs) p)"
  obtains q where "q \<in> set (rx_match r p)" "p' \<in> set (rx_match_seq rs q)"
  using assms unfolding rx_match_seq.simps set_concat set_map by blast

lemma rx_match_seq_NilE:
  assumes "p' \<in> set (rx_match_seq [] p)"
  obtains "p' = p"
  using assms by simp

lemmas rx_match_seqE = rx_match_seq_ConsE rx_match_seq_NilE

text \<open>A class consumes input; a repetition does not add input; neither captures.\<close>

lemma rx_match_One:
  "p' \<in> set (rx_match (One k) p) \<Longrightarrow>
     length (pos_rest p') < length (pos_rest p) \<and> pos_caps p' = pos_caps p"
  by (cases p; cases "pos_rest p") (auto simp: advance_def Let_def split: if_splits)

lemma star_ends_caps:
  "p' \<in> set (star_ends k b s cs) \<Longrightarrow> length (pos_rest p') \<le> length s \<and> pos_caps p' = cs"
proof (induction k b s cs rule: star_ends.induct)
  case (1 k b s cs)
  show ?case
  proof (cases "class_width k s = 0 \<or> s = []")
    case True
    then show ?thesis using "1.prems" by (subst (asm) star_ends.simps) (auto simp: Let_def)
  next
    case False
    then show ?thesis
      using "1.prems" "1.IH" [OF refl False]
      by (subst (asm) star_ends.simps) (auto simp: Let_def)
  qed
qed

lemma rx_match_Plus:
  assumes "p' \<in> set (rx_match (Plus k) p)"
  shows "length (pos_rest p') < length (pos_rest p) \<and> pos_caps p' = pos_caps p"
proof -
  obtain b s cs where q: "(b, s, cs) \<in> set (rx_match (One k) p)" "p' \<in> set (star_ends k b s cs)"
    using assms by auto
  from rx_match_One [OF q(1)] star_ends_caps [OF q(2)] show ?thesis by simp
qed

text \<open>The capture of a non-empty repetition is not empty.\<close>

lemma rx_match_Cap_Plus:
  assumes "p' \<in> set (rx_match (Cap (Plus k)) p)"
  shows "\<exists>x. x \<noteq> [] \<and> pos_caps p' = pos_caps p @ [x]"
proof -
  obtain q where q: "q \<in> set (rx_match (Plus k) p)"
    and p': "p' = (fst q, pos_rest q, pos_caps q @ [take (length (pos_rest p) - length (pos_rest q)) (pos_rest p)])"
    using assms unfolding rx_match.simps(6) by (force simp del: rx_match.simps)
  from rx_match_Plus [OF q] show ?thesis by (auto simp: p')
qed

text \<open>Expressions without captures.\<close>

fun no_caps :: "rx \<Rightarrow> bool" where
  "no_caps (Cap r) = False"
| "no_caps (Cat rs) = list_all no_caps rs"
| "no_caps (Alt rs) = list_all no_caps rs"
| "no_caps (Opt r) = no_caps r"
| "no_caps _ = True"

lemma rx_match_no_caps:
  "no_caps r \<Longrightarrow> p' \<in> set (rx_match r p) \<Longrightarrow> pos_caps p' = pos_caps p"
  "list_all no_caps rs \<Longrightarrow> p' \<in> set (rx_match_seq rs p) \<Longrightarrow> pos_caps p' = pos_caps p"
  "list_all no_caps rs \<Longrightarrow> p' \<in> set (rx_match_alt rs p) \<Longrightarrow> pos_caps p' = pos_caps p"
proof (induction r p and rs p and rs p arbitrary: p' and p' and p' rule: rx_match_rx_match_seq_rx_match_alt.induct)
  case (1 k p)
  then show ?case using rx_match_One by blast
next
  case (2 k p)
  then show ?case by (cases p) (auto dest: star_ends_caps)
qed (auto split: if_splits prod.splits)

lemma rx_match_Cap:
  assumes "no_caps r" and "p' \<in> set (rx_match (Cap r) p)"
  shows "\<exists>x. pos_caps p' = pos_caps p @ [x]"
proof -
  obtain q x where "q \<in> set (rx_match r p)" "pos_caps p' = pos_caps q @ [x]"
    using assms(2) unfolding rx_match.simps(6) set_map by (auto simp del: rx_match.simps split: prod.splits)
  then show ?thesis using rx_match_no_caps(1) [OF assms(1)] by (metis)
qed

lemma rx_find_match:
  "rx_find r b s = Some p \<Longrightarrow> \<exists>b' s'. p \<in> set (rx_match r (b', s', []))"
proof (induction r b s rule: rx_find.induct)
  case (1 r b s)
  show ?case
  proof (cases "rx_match r (b, s, [])")
    case Nil
    then obtain c cs where "s = c # cs" "rx_find r (Some c) cs = Some p"
      using "1.prems" unfolding rx_find.simps [of r b s] Nil by (auto split: list.splits)
    then show ?thesis using "1.IH" Nil by blast
  next
    case (Cons q qs)
    then have "q = p" using "1.prems" unfolding rx_find.simps [of r b s] by simp
    then have "p \<in> set (rx_match r (b, s, []))" unfolding Cons by simp
    then show ?thesis by blast
  qed
qed

lemma find_all_from_match:
  "cs \<in> set (find_all_from r b s) \<Longrightarrow> \<exists>p b' s'. p \<in> set (rx_match r (b', s', [])) \<and> cs = pos_caps p"
proof (induction r b s rule: find_all_from.induct)
  case (1 r b s)
  obtain b' t cs' where f: "rx_find r b s = Some (b', t, cs')"
    and c: "cs = cs' \<or> length t < length s \<and> cs \<in> set (find_all_from r b' t)"
    using "1.prems" unfolding find_all_from.simps [of r b s]
    by (cases "rx_find r b s") (auto split: if_splits)
  from c show ?case
  proof
    assume "cs = cs'"
    then show ?thesis using rx_find_match [OF f] by force
  next
    assume "length t < length s \<and> cs \<in> set (find_all_from r b' t)"
    then show ?thesis using "1.IH" f by blast
  qed
qed

end
