(* ===== verification/Detection.thy ===== *)
theory Detection
  imports Models Go_Csv Go_Regexp
begin

text \<open>
  \<open>internal/detection\<close>: the format detector (\<open>detector.go\<close>) and the drift
  detector (\<open>drift.go\<close>).
\<close>

section \<open>Detector\<close>

definition FormatSyslog :: string where "FormatSyslog = ''syslog''"
definition FormatJSON :: string where "FormatJSON = ''json''"
definition FormatCSV :: string where "FormatCSV = ''csv''"
definition FormatUnknown :: string where "FormatUnknown = ''unknown''"

definition rx_clock :: "rx list" where
  "rx_clock = [Times 2 Digit, Word '':'', Times 2 Digit, Word '':'', Times 2 Digit]"

text \<open>\<open>^(?:<\d+>)?(?:[A-Z][a-z]{2}\s+\d+\s+\d{2}:\d{2}:\d{2}|\d{4}-\d{2}-\d{2}[T\s]\d{2}:\d{2}:\d{2})\<close>\<close>

definition syslogTimestampRegex :: rx where
  "syslogTimestampRegex = Cat
     [Begin, Opt (Cat [Word ''<'', Plus Digit, Word ''>'']),
      Alt [Cat ([One Upper, Times 2 Lower, Plus Space, Plus Digit, Plus Space] @ rx_clock),
           Cat ([Times 4 Digit, Word ''-'', Times 2 Digit, Word ''-'', Times 2 Digit, One TorSpace] @
                rx_clock)]]"

text \<open>\<open>(?i)\b(?:SRC|DST|SPT|DPT|PROTO|ACTION)=\<close>\<close>

definition syslogKVRegex :: rx where
  "syslogKVRegex = Cat
     [WordBoundary,
      Alt [FoldWord ''SRC'', FoldWord ''DST'', FoldWord ''SPT'', FoldWord ''DPT'',
           FoldWord ''PROTO'', FoldWord ''ACTION''],
      Word ''='']"

definition header_signals :: "string list" where
  "header_signals =
     [''timestamp'', ''time'', ''action'', ''act'', ''protocol'', ''proto'', ''src_ip'', ''dst_ip'',
      ''src_port'', ''dst_port'', ''source'', ''severity'', ''ip'']"

definition json_shape :: "string \<Rightarrow> bool" where
  "json_shape s \<longleftrightarrow>
     prefix ''{'' s \<and> suffix ''}'' s \<or> prefix ''['' s \<and> suffix '']'' s"

definition has_header_signals :: "unicode \<Rightarrow> string list \<Rightarrow> bool" where
  "has_header_signals uc header \<longleftrightarrow>
     list_ex (\<lambda>col. to_lower uc (trim_space col) \<in> set header_signals) header"

definition csv_shape :: "unicode \<Rightarrow> string \<Rightarrow> bool" where
  "csv_shape uc s \<longleftrightarrow> contains '','' s \<and>
     (case csv_read_all s of
        Inr (h # r # _) \<Rightarrow> 2 \<le> length h \<and> length h = length r \<and> has_header_signals uc h
      | _ \<Rightarrow> False)"

definition syslog_shape :: "string \<Rightarrow> bool" where
  "syslog_shape s \<longleftrightarrow> match_string syslogTimestampRegex s \<or> match_string syslogKVRegex s"

definition detection :: "string \<Rightarrow> string \<Rightarrow> float64 \<Rightarrow> string \<Rightarrow> DetectionResult" where
  "detection f t c r = \<lparr>dr_Format = f, dr_SourceType = t, dr_Confidence = c, dr_Reason = r\<rparr>"

definition Detect :: "unicode \<Rightarrow> string \<Rightarrow> string \<Rightarrow> DetectionResult" where
  "Detect uc payload hint =
     (let cleanedHint = to_lower uc (trim_space hint) in
      if cleanedHint = FormatSyslog then
        detection FormatSyslog ''firewall'' 1 ''Format explicitly provided by caller as syslog''
      else if cleanedHint = FormatJSON then
        detection FormatJSON ''firewall'' 1 ''Format explicitly provided by caller as json''
      else if cleanedHint = FormatCSV then
        detection FormatCSV ''firewall'' 1 ''Format explicitly provided by caller as csv''
      else
        (let trimmed = trim_space payload in
         if trimmed = [] then detection FormatUnknown ''unknown'' 0 ''Payload is empty''
         else if json_shape trimmed \<and> json_valid trimmed then
           detection FormatJSON ''firewall'' (float_const 95 100) ''Valid JSON structure detected''
         else if csv_shape uc trimmed then
           detection FormatCSV ''firewall'' (float_const 90 100)
             ''CSV column structure with recognized headers detected''
         else if syslog_shape trimmed then
           detection FormatSyslog ''firewall'' (float_const 85 100)
             ''Syslog timestamp or key-value pattern detected''
         else
           detection FormatUnknown ''unknown'' 0
             ''Unable to deterministically match syslog, json, or csv structure''))"

section \<open>Drift detector\<close>

text \<open>\<open>ctx_err\<close> is the error of the caller's context, if it is cancelled.\<close>

definition Analyze ::
  "unicode \<Rightarrow> go_error option \<Rightarrow> RawEvent \<Rightarrow> DetectionResult \<Rightarrow> DriftResult \<times> go_error option" where
  "Analyze uc ctx_err event det =
     (case ctx_err of
        Some err \<Rightarrow>
          (\<lparr>df_Status = [], df_Confidence = 0, df_Message = [], df_SuggestedAction = []\<rparr>, Some err)
      | None \<Rightarrow>
          (let format = to_lower uc (trim_space (dr_Format det)) in
           if format \<noteq> FormatSyslog \<and> format \<noteq> FormatJSON \<and> format \<noteq> FormatCSV \<or>
              dr_Confidence det < 1 / 2
           then (\<lparr>df_Status = DriftStatusUnknown, df_Confidence = dr_Confidence det,
                  df_Message = ''Unrecognized log schema structure; candidate for AI escalation'',
                  df_SuggestedAction = ''escalate_to_ai''\<rparr>, None)
           else (\<lparr>df_Status = DriftStatusStable, df_Confidence = dr_Confidence det,
                  df_Message = ''Payload matches established '' @ format @ '' parser contract'',
                  df_SuggestedAction = ''route_to_parser''\<rparr>, None)))"

section \<open>Confidence constants\<close>

text \<open>The constants 0.95, 0.90 and 0.85.\<close>

lemma confidence_floors:
  "\<lfloor>42784196460019712 / 5 :: rat\<rfloor> = 8556839292003942"
  "\<lfloor>40532396646334464 / 5 :: rat\<rfloor> = 8106479329266892"
  "\<lfloor>38280596832649216 / 5 :: rat\<rfloor> = 7656119366529843"
  by (simp_all add: floor_eq_iff)

lemma bit_length_values: "bit_length 95 = 7" "bit_length 90 = 7" "bit_length 85 = 7" "bit_length 100 = 7"
  by code_simp+

lemma float_const_values:
  "float_const 95 100 = 8556839292003942 / 9007199254740992"
  "float_const 90 100 = 8106479329266893 / 9007199254740992"
  "float_const 85 100 = 7656119366529843 / 9007199254740992"
  by (simp_all add: float_const_def round_float64_def Let_def floor_log2_def bit_length_values pow2_def
      round_half_even_def confidence_floors)

section \<open>Laws\<close>

text \<open>The detector names one of the four formats, and nothing but a known format is trusted.\<close>

lemma Detect_formats:
  "dr_Format (Detect uc p h) \<in> {FormatSyslog, FormatJSON, FormatCSV, FormatUnknown}"
  by (simp add: Detect_def detection_def Let_def)

lemma Detect_confidence:
  "if dr_Format (Detect uc p h) = FormatUnknown then dr_Confidence (Detect uc p h) = 0
   else 1 / 2 \<le> dr_Confidence (Detect uc p h) \<and> dr_Confidence (Detect uc p h) \<le> 1"
  by (simp add: Detect_def detection_def Let_def float_const_values FormatUnknown_def FormatSyslog_def FormatJSON_def
      FormatCSV_def)

lemma format_constants_clean:
  "trim_space FormatSyslog = FormatSyslog" "trim_space FormatJSON = FormatJSON" "trim_space FormatCSV = FormatCSV"
  "trim_space FormatUnknown = FormatUnknown"
  "to_lower uc FormatSyslog = FormatSyslog" "to_lower uc FormatJSON = FormatJSON" "to_lower uc FormatCSV = FormatCSV"
  "to_lower uc FormatUnknown = FormatUnknown"
proof -
  show "trim_space FormatSyslog = FormatSyslog" "trim_space FormatJSON = FormatJSON" "trim_space FormatCSV = FormatCSV"
    "trim_space FormatUnknown = FormatUnknown" by code_simp+
  have "list_all is_ascii FormatSyslog" "list_all is_ascii FormatJSON" "list_all is_ascii FormatCSV"
    "list_all is_ascii FormatUnknown" by code_simp+
  moreover have "map ascii_lower FormatSyslog = FormatSyslog" "map ascii_lower FormatJSON = FormatJSON"
    "map ascii_lower FormatCSV = FormatCSV" "map ascii_lower FormatUnknown = FormatUnknown" by code_simp+
  ultimately show "to_lower uc FormatSyslog = FormatSyslog" "to_lower uc FormatJSON = FormatJSON"
    "to_lower uc FormatCSV = FormatCSV" "to_lower uc FormatUnknown = FormatUnknown"
    by (simp_all add: to_lower_ascii)
qed

lemma format_constants_distinct:
  "FormatUnknown \<noteq> FormatSyslog" "FormatUnknown \<noteq> FormatJSON" "FormatUnknown \<noteq> FormatCSV"
  "FormatSyslog \<noteq> FormatJSON" "FormatSyslog \<noteq> FormatCSV" "FormatJSON \<noteq> FormatCSV"
  by (simp_all add: FormatUnknown_def FormatSyslog_def FormatJSON_def FormatCSV_def)

text \<open>Drift analysis of a detector result: stable exactly when the format was recognised.\<close>

lemma Analyze_Detect:
  "df_Status (fst (Analyze uc None e (Detect uc p h))) =
     (if dr_Format (Detect uc p h) = FormatUnknown then DriftStatusUnknown else DriftStatusStable)"
  using Detect_formats [of uc p h] Detect_confidence [of uc p h]
  by (auto simp: Analyze_def Let_def format_constants_clean format_constants_distinct
      format_constants_distinct [symmetric])

text \<open>A recognised hint decides, whatever the payload.\<close>

lemma Detect_hint:
  "to_lower uc (trim_space h) \<in> {FormatSyslog, FormatJSON, FormatCSV} \<Longrightarrow>
     dr_Format (Detect uc p h) = to_lower uc (trim_space h) \<and> dr_Confidence (Detect uc p h) = 1"
  by (auto simp: Detect_def detection_def Let_def format_constants_distinct [symmetric])

end
