(* ===== verification/Normalization.thy ===== *)
theory Normalization
  imports Parsing
begin

text \<open>\<open>internal/normalization/normalizer.go\<close>: raw and parsed event to the universal event.\<close>

text \<open>
  \<open>uuid\<close> is the text \<open>uuid.New().String()\<close> returns, if called.  The clock is read
  once for a missing timestamp and once for \<open>IngestedAt\<close>.
\<close>

definition Normalize ::
  "string \<Rightarrow> clock_readings \<Rightarrow> RawEvent \<Rightarrow> ParsedEvent option \<Rightarrow> DetectionResult \<Rightarrow> UniversalEvent result" where
  "Normalize uuid now raw parsed detection = (case parsed of
       None \<Rightarrow> Inl (Errorf ''cannot normalize nil parsed event'')
     | Some p \<Rightarrow>
         (let eventID = (if re_EventID raw = [] then ''evt_'' @ uuid else re_EventID raw);
              ts0 = or_default (pe_Timestamp p) (re_ReceivedAt raw);
              ts = or_default ts0 (format_rfc3339 (now 0));
              ingested = format_rfc3339 (now (if ts0 = [] then 1 else 0));
              format = or_default (or_default (dr_Format detection) (re_Format raw)) ''unknown''
          in Inr \<lparr>ue_EventID = eventID, ue_SchemaVersion = ''1.0'', ue_Timestamp = ts,
                  ue_Source = pe_Source p, ue_Event = pe_Event p, ue_Network = pe_Network p,
                  ue_User = pe_User p, ue_Raw = \<lparr>ri_Format = format, ri_Message = re_Payload raw\<rparr>,
                  ue_Metadata = \<lparr>mi_ParserVersion = ''1.0'', mi_IngestedAt = ingested\<rparr>\<rparr>))"

text \<open>What the normaliser guarantees of every event it returns.\<close>

definition canonical_event :: "UniversalEvent \<Rightarrow> bool" where
  "canonical_event u \<longleftrightarrow>
     ue_EventID u \<noteq> [] \<and> ue_SchemaVersion u = ''1.0'' \<and> ue_Timestamp u \<noteq> [] \<and>
     ri_Format (ue_Raw u) \<noteq> [] \<and> mi_ParserVersion (ue_Metadata u) = ''1.0'' \<and>
     mi_IngestedAt (ue_Metadata u) \<noteq> []"

lemma Normalize_Some: "\<exists>u. Normalize uuid now raw (Some p) det = Inr u"
  by (simp add: Normalize_def Let_def)

lemma Normalize_canonical: "Normalize uuid now raw p det = Inr u \<Longrightarrow> canonical_event u"
  by (auto simp: Normalize_def Let_def canonical_event_def or_default_nonempty format_rfc3339_nonempty
      split: option.splits if_splits)

lemma Normalize_fields:
  assumes "Normalize uuid now raw p det = Inr u"
  shows "ri_Message (ue_Raw u) = re_Payload raw"
    and "re_EventID raw \<noteq> [] \<Longrightarrow> ue_EventID u = re_EventID raw"
    and "dr_Format det \<noteq> [] \<Longrightarrow> ri_Format (ue_Raw u) = dr_Format det"
    and "\<exists>q. p = Some q \<and> ue_Network u = pe_Network q \<and> ue_Source u = pe_Source q \<and>
           ue_Event u = pe_Event q \<and> ue_User u = pe_User q \<and>
           (pe_Timestamp q \<noteq> [] \<longrightarrow> ue_Timestamp u = pe_Timestamp q)"
  using assms by (auto simp: Normalize_def Let_def or_default_def split: option.splits)

end
