(* ===== verification/Validation.thy ===== *)
theory Validation
  imports Normalization
begin

text \<open>
  \<open>internal/validation\<close>: the schema of \<open>universal_event.schema.json\<close>, what it means
  to conform to it, and the validator of \<open>validator.go\<close> around the compiled schema of
  the jsonschema package, which is a parameter.
\<close>

section \<open>Schema\<close>

text \<open>The keywords the schema file uses; \<open>additionalProperties: true\<close> constrains nothing.\<close>

datatype schema = Schema
  (s_type: "string list")
  (s_required: "string list")
  (s_properties: "(string \<times> schema) list")
  (s_minLength: "nat option")
  (s_enum: "string list option")
  (s_minimum: "int option")
  (s_maximum: "int option")

definition typed :: "string list \<Rightarrow> schema" where
  "typed ts = Schema ts [] [] None None None None"

definition object_schema :: "string list \<Rightarrow> string list \<Rightarrow> (string \<times> schema) list \<Rightarrow> schema" where
  "object_schema ts req props = Schema ts req props None None None None"

definition nullable_string :: schema where
  "nullable_string = typed [''string'', ''null'']"

definition port_schema :: schema where
  "port_schema = Schema [''integer'', ''null''] [] [] None None (Some 0) (Some 65535)"

definition source_schema :: schema where
  "source_schema = object_schema [''object''] []
     [(''type'', nullable_string), (''vendor'', nullable_string), (''product'', nullable_string),
      (''identifier'', nullable_string)]"

definition event_schema :: schema where
  "event_schema = object_schema [''object''] []
     [(''category'', nullable_string), (''action'', nullable_string), (''severity'', nullable_string)]"

definition network_schema :: schema where
  "network_schema = object_schema [''object'', ''null''] []
     [(''src_ip'', nullable_string), (''src_port'', port_schema), (''dst_ip'', nullable_string),
      (''dst_port'', port_schema), (''protocol'', nullable_string)]"

definition user_schema :: schema where
  "user_schema = object_schema [''object'', ''null''] [] [(''username'', nullable_string)]"

definition raw_schema :: schema where
  "raw_schema = object_schema [''object''] [''format'', ''message'']
     [(''format'', typed [''string'']), (''message'', typed [''string''])]"

definition metadata_schema :: schema where
  "metadata_schema = object_schema [''object''] [''parser_version'', ''ingested_at'']
     [(''parser_version'', typed [''string'']), (''ingested_at'', typed [''string''])]"

definition universal_schema :: schema where
  "universal_schema = object_schema [''object'']
     [''event_id'', ''schema_version'', ''timestamp'', ''source'', ''event'', ''raw'', ''metadata'']
     [(''event_id'', Schema [''string''] [] [] (Some 1) None None None),
      (''schema_version'', Schema [''string''] [] [] None (Some [''1.0'']) None None),
      (''timestamp'', typed [''string'']), (''source'', source_schema), (''event'', event_schema),
      (''network'', network_schema), (''user'', user_schema), (''raw'', raw_schema),
      (''metadata'', metadata_schema)]"

section \<open>Conformance\<close>

text \<open>The JSON Schema meaning of these keywords for a decoded value.\<close>

definition has_type :: "any \<Rightarrow> string \<Rightarrow> bool" where
  "has_type v t = (case v of
       ANil \<Rightarrow> t = ''null''
     | ABool _ \<Rightarrow> t = ''boolean''
     | AFloat q \<Rightarrow> t = ''number'' \<or> t = ''integer'' \<and> of_int \<lfloor>q\<rfloor> = q
     | AString _ \<Rightarrow> t = ''string''
     | ASlice _ \<Rightarrow> t = ''array''
     | AMap _ \<Rightarrow> t = ''object'')"

fun conforms :: "schema \<Rightarrow> any \<Rightarrow> bool"
  and conforms_members :: "(string \<times> schema) list \<Rightarrow> (string \<times> any) list \<Rightarrow> bool" where
  "conforms (Schema ts req props minl enu mini maxi) v \<longleftrightarrow>
     list_ex (has_type v) ts \<and>
     (case v of
        AMap ms \<Rightarrow> list_all (\<lambda>k. any_member k ms \<noteq> None) req \<and> conforms_members props ms
      | AString s \<Rightarrow> (case minl of Some n \<Rightarrow> n \<le> length (decode_runes s) | None \<Rightarrow> True)
      | AFloat q \<Rightarrow> (case mini of Some m \<Rightarrow> of_int m \<le> q | None \<Rightarrow> True) \<and>
                    (case maxi of Some m \<Rightarrow> q \<le> of_int m | None \<Rightarrow> True)
      | _ \<Rightarrow> True) \<and>
     (case enu of Some vs \<Rightarrow> v \<in> AString ` set vs | None \<Rightarrow> True)"
| "conforms_members [] ms \<longleftrightarrow> True"
| "conforms_members ((k, sc) # props) ms \<longleftrightarrow>
     (case any_member k ms of Some v \<Rightarrow> conforms sc v | None \<Rightarrow> True) \<and> conforms_members props ms"

section \<open>Validator\<close>

text \<open>A message that renders an error is kept as that error; \<open>Errorf m\<close> is the plain text \<open>m\<close>.\<close>

record ValidationError =
  ve_Field :: string
  ve_Message :: go_error

record ValidationResult =
  vr_Valid :: bool
  vr_Errors :: "ValidationError list"

text \<open>
  The errors of a compiled schema: a \<open>*jsonschema.ValidationError\<close> with its causes
  (location and message each), or another error.
\<close>

datatype schema_error =
    Violation string string "(string \<times> string) list"
  | OtherError string

type_synonym compiled_schema = "any \<Rightarrow> schema_error option"

definition error_list :: "schema_error \<Rightarrow> ValidationError list" where
  "error_list err = (case err of
       Violation loc msg causes \<Rightarrow>
         (let es = map (\<lambda>(l, m). \<lparr>ve_Field = l, ve_Message = Errorf m\<rparr>) causes
          in if es = [] then [\<lparr>ve_Field = loc, ve_Message = Errorf msg\<rparr>] else es)
     | OtherError msg \<Rightarrow> [\<lparr>ve_Field = ''schema'', ve_Message = Errorf msg\<rparr>])"

text \<open>\<open>json.Unmarshal(data, &vData)\<close> for \<open>vData any\<close>.\<close>

definition unmarshal_any :: "string \<Rightarrow> any result" where
  "unmarshal_any data = (case json_parse data of None \<Rightarrow> Inl JsonSyntax | Some v \<Rightarrow> dec_any v)"

definition ValidateBytes :: "compiled_schema \<Rightarrow> string \<Rightarrow> ValidationResult" where
  "ValidateBytes schema data = (case unmarshal_any data of
       Inl err \<Rightarrow> \<lparr>vr_Valid = False,
                    vr_Errors = [\<lparr>ve_Field = ''root'', ve_Message = Wrap ''invalid JSON'' err\<rparr>]\<rparr>
     | Inr vData \<Rightarrow>
         (case schema vData of
            None \<Rightarrow> \<lparr>vr_Valid = True, vr_Errors = []\<rparr>
          | Some err \<Rightarrow> \<lparr>vr_Valid = False, vr_Errors = error_list err\<rparr>))"

text \<open>
  \<open>json.Marshal\<close> cannot fail on a \<open>UniversalEvent\<close>; a nil pointer is marshalled as \<open>null\<close>.
\<close>

definition Validate :: "compiled_schema \<Rightarrow> UniversalEvent option \<Rightarrow> ValidationResult" where
  "Validate schema event =
     ValidateBytes schema (json_print (case event of None \<Rightarrow> JNull | Some e \<Rightarrow> universal_event_json e))"

text \<open>
  \<open>NewValidator\<close>: the schema file if it can be read and is not empty, else the embedded
  text.  Parameters: the file system, the embedded text, and the package's \<open>AddResource\<close>
  and \<open>Compile\<close>.
\<close>

definition NewValidator ::
  "(string \<Rightarrow> string result) \<Rightarrow> string \<Rightarrow> (string \<Rightarrow> go_error option) \<Rightarrow> (string \<Rightarrow> compiled_schema result) \<Rightarrow>
   string \<Rightarrow> compiled_schema result" where
  "NewValidator readFile embeddedUniversalSchema addResource compile schemaPath =
     (let data0 = (if schemaPath \<noteq> [] then (case readFile schemaPath of Inr content \<Rightarrow> content | Inl _ \<Rightarrow> [])
                   else []);
          schemaData = or_default data0 embeddedUniversalSchema
      in if schemaData = [] then Inl (Errorf ''no schema content available'')
         else (case addResource schemaData of
                 Some err \<Rightarrow> Inl (Wrap ''failed to add schema resource'' err)
               | None \<Rightarrow> (case compile schemaData of
                     Inl err \<Rightarrow> Inl (Wrap ''failed to compile schema'' err)
                   | Inr compiled \<Rightarrow> Inr compiled)))"

text \<open>What the program relies on: the compiled schema accepts exactly what conforms to it.\<close>

definition implements :: "compiled_schema \<Rightarrow> schema \<Rightarrow> bool" where
  "implements cs sc \<longleftrightarrow> (\<forall>v. cs v = None \<longleftrightarrow> conforms sc v)"

section \<open>Validity of universal events\<close>

lemmas schema_defs = typed_def object_schema_def nullable_string_def port_schema_def source_schema_def
  event_schema_def network_schema_def user_schema_def raw_schema_def metadata_schema_def

lemma source_conforms: "\<exists>ms. dec_any (coerce_json (source_json s)) = Inr (AMap ms) \<and> conforms source_schema (AMap ms)"
  by (auto simp: source_json_def omit_empty_def schema_defs has_type_def)

lemma event_conforms: "\<exists>ms. dec_any (coerce_json (event_json e)) = Inr (AMap ms) \<and> conforms event_schema (AMap ms)"
  by (auto simp: event_json_def omit_empty_def schema_defs has_type_def)

lemma user_conforms: "\<exists>ms. dec_any (coerce_json (user_json u)) = Inr (AMap ms) \<and> conforms user_schema (AMap ms)"
  by (auto simp: user_json_def schema_defs has_type_def split: option.splits)

lemma raw_conforms: "\<exists>ms. dec_any (coerce_json (raw_info_json r)) = Inr (AMap ms) \<and> conforms raw_schema (AMap ms)"
  by (auto simp: raw_info_json_def schema_defs has_type_def)

lemma metadata_conforms: "\<exists>ms. dec_any (coerce_json (metadata_json m)) = Inr (AMap ms) \<and> conforms metadata_schema (AMap ms)"
  by (auto simp: metadata_json_def schema_defs has_type_def)

definition port_ok :: "int option \<Rightarrow> bool" where
  "port_ok p \<longleftrightarrow> (case p of None \<Rightarrow> True | Some n \<Rightarrow> 0 \<le> n \<and> n \<le> 65535)"

lemma port_conforms:
  assumes "in_int64 n"
  shows "\<exists>v. parse_float64 (itoa n) = Some v \<and> (conforms port_schema (AFloat v) \<longleftrightarrow> port_ok (Some n))"
proof -
  obtain v where v: "parse_float64 (itoa n) = Some (of_int v)" "\<bar>n\<bar> < 2 ^ 53 \<longrightarrow> v = n"
    "2 ^ 53 \<le> n \<longrightarrow> 2 ^ 53 \<le> v" "n \<le> - (2 ^ 53) \<longrightarrow> v \<le> - (2 ^ 53)"
    using parse_float64_itoa [OF assms] by blast
  have "0 \<le> v \<and> v \<le> 65535 \<longleftrightarrow> 0 \<le> n \<and> n \<le> 65535"
    using v(2-4) by (cases "\<bar>n\<bar> < 2 ^ 53") auto
  moreover have "(of_int v :: rat) \<le> 65535 \<longleftrightarrow> v \<le> 65535" by linarith
  ultimately show ?thesis using v(1)
    by (auto simp: port_schema_def has_type_def port_ok_def)
qed


definition network_ports_ok :: "NetworkInfo \<Rightarrow> bool" where
  "network_ports_ok n \<longleftrightarrow> port_ok (ni_SrcPort n) \<and> port_ok (ni_DstPort n)"

definition network_int64 :: "NetworkInfo \<Rightarrow> bool" where
  "network_int64 n \<longleftrightarrow> (\<forall>p. ni_SrcPort n = Some p \<or> ni_DstPort n = Some p \<longrightarrow> in_int64 p)"

text \<open>A marshalled port, if any, decodes to a value that conforms exactly when the port is in range.\<close>

lemma port_member:
  assumes "\<And>n. p = Some n \<Longrightarrow> in_int64 n"
  shows "\<exists>v. (\<forall>n. p = Some n \<longrightarrow> parse_float64 (itoa n) = Some v) \<and>
    (p \<noteq> None \<longrightarrow> conforms port_schema (AFloat v) = port_ok p)"
  using assms port_conforms by (cases p) auto

lemma network_conforms:
  assumes "network_int64 n"
  shows "\<exists>ms. dec_any (coerce_json (network_json n)) = Inr (AMap ms) \<and>
    (conforms network_schema (AMap ms) \<longleftrightarrow> network_ports_ok n)"
proof -
  obtain v w where "\<forall>k. ni_SrcPort n = Some k \<longrightarrow> parse_float64 (itoa k) = Some v"
      "ni_SrcPort n \<noteq> None \<longrightarrow> conforms port_schema (AFloat v) = port_ok (ni_SrcPort n)"
      "\<forall>k. ni_DstPort n = Some k \<longrightarrow> parse_float64 (itoa k) = Some w"
      "ni_DstPort n \<noteq> None \<longrightarrow> conforms port_schema (AFloat w) = port_ok (ni_DstPort n)"
    using port_member [of "ni_SrcPort n"] port_member [of "ni_DstPort n"] assms
    unfolding network_int64_def by blast
  then show ?thesis
    by (cases "ni_SrcPort n"; cases "ni_DstPort n"; cases "ni_SrcIP n = []"; cases "ni_DstIP n = []";
        cases "ni_Protocol n = []")
      (simp_all add: network_json_def omit_empty_def omit_nil_def int_json_def network_schema_def object_schema_def
        nullable_string_def typed_def has_type_def network_ports_ok_def port_ok_def [of None])
qed

definition ports_in_range :: "UniversalEvent \<Rightarrow> bool" where
  "ports_in_range u \<longleftrightarrow> (case ue_Network u of None \<Rightarrow> True | Some n \<Rightarrow> network_ports_ok n)"

lemma printed_event_conforms:
  assumes "canonical_event u" and "\<And>n. ue_Network u = Some n \<Longrightarrow> network_int64 n"
  shows "\<exists>v. unmarshal_any (json_print (universal_event_json u)) = Inr v \<and>
    (conforms universal_schema v \<longleftrightarrow> ports_in_range u)"
proof -
  obtain so ev ra me where sub:
      "dec_any (coerce_json (source_json (ue_Source u))) = Inr (AMap so)" "conforms source_schema (AMap so)"
      "dec_any (coerce_json (event_json (ue_Event u))) = Inr (AMap ev)" "conforms event_schema (AMap ev)"
      "dec_any (coerce_json (raw_info_json (ue_Raw u))) = Inr (AMap ra)" "conforms raw_schema (AMap ra)"
      "dec_any (coerce_json (metadata_json (ue_Metadata u))) = Inr (AMap me)" "conforms metadata_schema (AMap me)"
    using source_conforms event_conforms raw_conforms metadata_conforms by metis
  obtain nw us where opt:
      "\<forall>n. ue_Network u = Some n \<longrightarrow> dec_any (coerce_json (network_json n)) = Inr (AMap nw) \<and>
         (conforms network_schema (AMap nw) \<longleftrightarrow> network_ports_ok n)"
      "\<forall>x. ue_User u = Some x \<longrightarrow> dec_any (coerce_json (user_json x)) = Inr (AMap us) \<and> conforms user_schema (AMap us)"
    using network_conforms assms(2) user_conforms by (metis option.inject)
  have id: "ue_EventID u \<noteq> []" "ue_SchemaVersion u = ''1.0''" using assms(1) by (simp_all add: canonical_event_def)
  show ?thesis
    unfolding unmarshal_any_def json_parse_print [OF printable_universal_event]
    using sub opt id
    by (cases "ue_Network u"; cases "ue_User u")
      (simp_all add: universal_event_json_def omit_nil_def universal_schema_def object_schema_def typed_def has_type_def
        decode_runes_Cons_length ports_in_range_def)
qed

section \<open>The verdict\<close>

lemma error_list_nonempty: "error_list e \<noteq> []"
  by (simp add: error_list_def Let_def split: schema_error.split)

lemma ValidateBytes_errors: "vr_Valid (ValidateBytes cs data) \<longleftrightarrow> vr_Errors (ValidateBytes cs data) = []"
  by (simp add: ValidateBytes_def error_list_nonempty split: sum.split option.split)

lemma Validate_iff:
  assumes "implements cs universal_schema" and "canonical_event u"
    and "\<And>n. ue_Network u = Some n \<Longrightarrow> network_int64 n"
  shows "vr_Valid (Validate cs (Some u)) \<longleftrightarrow> ports_in_range u"
proof -
  obtain v where "unmarshal_any (json_print (universal_event_json u)) = Inr v"
    "conforms universal_schema v \<longleftrightarrow> ports_in_range u"
    using printed_event_conforms [of u] assms(2,3) by blast
  moreover have "cs v = None \<longleftrightarrow> conforms universal_schema v" using assms(1) by (simp add: implements_def)
  ultimately show ?thesis
    by (cases "cs v") (auto simp: Validate_def ValidateBytes_def)
qed

text \<open>An executable validator for a schema, which shows that the reliance can be met.\<close>

definition reference_validator :: "schema \<Rightarrow> compiled_schema" where
  "reference_validator sc v = (if conforms sc v then None else Some (OtherError ''does not conform''))"

lemma implements_reference: "implements (reference_validator sc) sc"
  by (simp add: implements_def reference_validator_def)

lemma int64_ports_network: "int64_ports e \<Longrightarrow> pe_Network e = Some n \<Longrightarrow> network_int64 n"
  by (simp add: int64_ports_def network_int64_def)

section \<open>The embedded schema\<close>

lemma NewValidator_embedded:
  assumes "schemaPath = [] \<or> is_err (readFile schemaPath) \<or> readFile schemaPath = Inr []"
  shows "NewValidator readFile emb add cmp schemaPath = NewValidator readFile emb add cmp []"
  using assms by (auto simp: NewValidator_def split: sum.splits)

end
