(* ===== verification/Worker.thy ===== *)
theory Worker
  imports Redis_Buffer Idempotency Raw_Store Runtime Detection Validation
begin

text \<open>
  \<open>internal/worker/worker.go\<close>: configuration, the processing pipeline of one event, the
  idempotent processing of one message, the sequential batch and the consumer loop.
\<close>

section \<open>Worker\<close>

record PipelineResult =
  pr_EventID :: string
  pr_UniversalEvent :: UniversalEvent
  pr_Valid :: bool
  pr_Errors :: "ValidationError list"
  pr_Drift :: DriftResult

text \<open>
  The stages are fields as in the struct: interfaces of the pipeline as functions, interfaces
  with effects as records of operations on the world; \<open>None\<close> is a nil interface.
\<close>

record 'w Worker =
  w_buffer :: "'w RawBuffer"
  w_idempotency :: "'w IdempotencyStore option"
  w_rawStore :: "'w RawEventStore option"
  w_detector :: "string \<Rightarrow> string \<Rightarrow> DetectionResult"
  w_driftDetector :: "go_error option \<Rightarrow> RawEvent \<Rightarrow> DetectionResult \<Rightarrow> DriftResult \<times> go_error option"
  w_parserEngine :: "clock_readings \<Rightarrow> RawEvent \<Rightarrow> DetectionResult \<Rightarrow> ParsedEvent option result"
  w_validator :: "UniversalEvent option \<Rightarrow> ValidationResult"
  w_streamName :: string
  w_groupName :: string
  w_consumerName :: string
  w_claimIdleTime :: duration
  w_lockTTL :: duration
  w_doneTTL :: duration
  w_batchSize :: int
  w_concurrency :: int

record Config =
  c_StreamName :: string
  c_GroupName :: string
  c_ConsumerName :: string
  c_ClaimIdleMs :: int
  c_LockTTLSeconds :: int
  c_DoneTTLSeconds :: int
  c_BatchSize :: int
  c_Concurrency :: int

definition defaultLockTTLSeconds :: int where "defaultLockTTLSeconds = 120"
definition defaultDoneTTLSeconds :: int where "defaultDoneTTLSeconds = 86400"
definition defaultBatchSize :: int where "defaultBatchSize = 10"
definition defaultConcurrency :: int where "defaultConcurrency = 4"

definition positive_or :: "int \<Rightarrow> int \<Rightarrow> int" where
  "positive_or n d = (if n \<le> 0 then d else n)"

definition NewWorker ::
  "'w RawBuffer \<Rightarrow> 'w IdempotencyStore option \<Rightarrow> 'w RawEventStore option \<Rightarrow>
   (string \<Rightarrow> string \<Rightarrow> DetectionResult) \<Rightarrow> (go_error option \<Rightarrow> RawEvent \<Rightarrow> DetectionResult \<Rightarrow> DriftResult \<times> go_error option) \<Rightarrow>
   (clock_readings \<Rightarrow> RawEvent \<Rightarrow> DetectionResult \<Rightarrow> ParsedEvent option result) \<Rightarrow>
   (UniversalEvent option \<Rightarrow> ValidationResult) \<Rightarrow> Config \<Rightarrow> 'w Worker" where
  "NewWorker buf idem rawst det drift eng vali cfg =
     \<lparr>w_buffer = buf, w_idempotency = idem, w_rawStore = rawst, w_detector = det, w_driftDetector = drift,
      w_parserEngine = eng, w_validator = vali,
      w_streamName = or_default (c_StreamName cfg) DefaultRawStreamName,
      w_groupName = or_default (c_GroupName cfg) DefaultGroupName,
      w_consumerName = or_default (c_ConsumerName cfg) ''worker-1'',
      w_claimIdleTime = (if c_ClaimIdleMs cfg > 0 then wrap64 (c_ClaimIdleMs cfg * Millisecond) else 0),
      w_lockTTL = wrap64 (positive_or (c_LockTTLSeconds cfg) defaultLockTTLSeconds * Second),
      w_doneTTL = wrap64 (positive_or (c_DoneTTLSeconds cfg) defaultDoneTTLSeconds * Second),
      w_batchSize = positive_or (c_BatchSize cfg) defaultBatchSize,
      w_concurrency = positive_or (c_Concurrency cfg) defaultConcurrency\<rparr>"

section \<open>Pipeline\<close>

text \<open>
  \<open>ProcessSingleEvent\<close>: the raw copy, whose failure is only logged, then detection, drift
  analysis, whose error is only logged, parsing, normalisation and
  validation.
\<close>

definition run_pipeline :: "'w Worker \<Rightarrow> readings \<Rightarrow> go_error option \<Rightarrow> RawEvent \<Rightarrow> PipelineResult result" where
  "run_pipeline wk rd cerr rawEvent =
     (let detectionRes = w_detector wk (re_Payload rawEvent) (re_Format rawEvent);
          (driftRes, _) = w_driftDetector wk cerr rawEvent detectionRes
      in case w_parserEngine wk (parse_clock rd) rawEvent detectionRes of
           Inl err \<Rightarrow> Inl (Wrap ''parsing failed'' err)
         | Inr parsedEvent \<Rightarrow>
             (case Normalize (drawn_uuid rd) (normalize_clock rd) rawEvent parsedEvent detectionRes of
                Inl err \<Rightarrow> Inl (Wrap ''normalization failed'' err)
              | Inr universalEvent \<Rightarrow>
                  (let valResult = w_validator wk (Some universalEvent)
                   in Inr \<lparr>pr_EventID = ue_EventID universalEvent, pr_UniversalEvent = universalEvent,
                           pr_Valid = vr_Valid valResult, pr_Errors = vr_Errors valResult,
                           pr_Drift = driftRes\<rparr>)))"

definition store_raw :: "'w Worker \<Rightarrow> RawEvent \<Rightarrow> 'w \<Rightarrow> 'w" where
  "store_raw wk e w = (case w_rawStore wk of None \<Rightarrow> w | Some st \<Rightarrow> snd (rs_Put st (Some e) w))"

definition ProcessSingleEvent :: "'w host \<Rightarrow> 'w Worker \<Rightarrow> RawEvent \<Rightarrow> 'w \<Rightarrow> PipelineResult result \<times> 'w" where
  "ProcessSingleEvent h wk rawEvent w =
     (let w1 = store_raw wk rawEvent w;
          (cerr, w2) = ctx_Err h w1;
          (rd, w3) = event_readings h w2
      in (run_pipeline wk rd cerr rawEvent, w3))"

section \<open>One message\<close>

definition ack :: "'w Worker \<Rightarrow> RawMessage \<Rightarrow> 'w \<Rightarrow> 'w" where
  "ack wk msg w = snd (Ack (w_buffer wk) (w_streamName wk) (w_groupName wk) [rm_ID msg] w)"

text \<open>The idempotency checks: what the worker does next.\<close>

datatype gate = SkipAck | SkipNoAck | Proceed

definition check_gate :: "'w Worker \<Rightarrow> string \<Rightarrow> 'w \<Rightarrow> gate \<times> 'w" where
  "check_gate wk eventID w = (case w_idempotency wk of
       None \<Rightarrow> (Proceed, w)
     | Some st \<Rightarrow>
         (case IsDone st eventID w of
            (Inr True, w1) \<Rightarrow> (SkipAck, w1)
          | (_, w1) \<Rightarrow>
              (case TryClaimProcessing st eventID (w_lockTTL wk) w1 of
                 (Inr False, w2) \<Rightarrow> (SkipNoAck, w2)
               | (_, w2) \<Rightarrow> (Proceed, w2))))"

definition release_lock :: "'w Worker \<Rightarrow> string \<Rightarrow> 'w \<Rightarrow> 'w" where
  "release_lock wk eventID w = (case w_idempotency wk of
       None \<Rightarrow> w | Some st \<Rightarrow> snd (ReleaseProcessing st eventID w))"

definition mark_done :: "'w Worker \<Rightarrow> string \<Rightarrow> 'w \<Rightarrow> 'w" where
  "mark_done wk eventID w = (case w_idempotency wk of
       None \<Rightarrow> w | Some st \<Rightarrow> snd (MarkDone st eventID (w_doneTTL wk) w))"

definition processSingleMessageIdempotent :: "'w host \<Rightarrow> 'w Worker \<Rightarrow> RawMessage \<Rightarrow> 'w \<Rightarrow> 'w" where
  "processSingleMessageIdempotent h wk msg w =
     (let eventID = re_EventID (rm_Event msg) in
      case check_gate wk eventID w of
        (SkipAck, w1) \<Rightarrow> ack wk msg w1
      | (SkipNoAck, w1) \<Rightarrow> w1
      | (Proceed, w1) \<Rightarrow>
          (case ProcessSingleEvent h wk (rm_Event msg) w1 of
             (Inl processErr, w2) \<Rightarrow> release_lock wk eventID w2
           | (Inr _, w2) \<Rightarrow> ack wk msg (mark_done wk eventID w2)))"

section \<open>Batches and the loop\<close>

text \<open>\<open>processMessages\<close> for \<open>concurrency \<le> 1\<close>.\<close>

fun process_sequential :: "'w host \<Rightarrow> 'w Worker \<Rightarrow> RawMessage list \<Rightarrow> 'w \<Rightarrow> 'w" where
  "process_sequential h wk [] w = w"
| "process_sequential h wk (msg # msgs) w =
     (case ctx_Err h w of
        (Some _, w1) \<Rightarrow> w1
      | (None, w1) \<Rightarrow> process_sequential h wk msgs (processSingleMessageIdempotent h wk msg w1))"

text \<open>
  The consumer loop, with the batch processor as a parameter: the sequential one above, or
  the pool of \<open>Worker_Pool\<close>.  Durations are divided as Go does, towards zero.
\<close>

definition claim_step ::
  "'w host \<Rightarrow> 'w Worker \<Rightarrow> (RawMessage list \<Rightarrow> 'w \<Rightarrow> 'w) \<Rightarrow> int \<Rightarrow> 'w \<Rightarrow> int \<times> 'w" where
  "claim_step h wk processMessages nextClaimAt w =
     (if w_claimIdleTime wk > 0 then
        (let (t, w1) = time_Now h w in
         if t > nextClaimAt then
           (let (t', w2) = time_Now h w1;
                next' = t' + w_claimIdleTime wk div 2
            in case ClaimPending (w_buffer wk) (w_streamName wk) (w_groupName wk) (w_consumerName wk)
                      (w_claimIdleTime wk) (w_batchSize wk) w2 of
                 (Inl _, w3) \<Rightarrow> (next', w3)
               | (Inr pending, w3) \<Rightarrow> (next', if pending = [] then w3 else processMessages pending w3))
         else (nextClaimAt, w1))
      else (nextClaimAt, w))"

partial_function (option) worker_loop ::
  "'w host \<Rightarrow> 'w Worker \<Rightarrow> (RawMessage list \<Rightarrow> 'w \<Rightarrow> 'w) \<Rightarrow> int \<Rightarrow> 'w \<Rightarrow> 'w option" where
  "worker_loop h wk processMessages nextClaimAt w =
     (case ctx_Err h w of
        (Some _, w1) \<Rightarrow> Some w1
      | (None, w1) \<Rightarrow>
          (case claim_step h wk processMessages nextClaimAt w1 of (next', w2) \<Rightarrow>
           (case ReadGroup (w_buffer wk) (w_streamName wk) (w_groupName wk) (w_consumerName wk)
                   (w_batchSize wk) (2 * Second) w2 of
              (Inl _, w3) \<Rightarrow>
                (case ctx_Err h w3 of
                   (Some _, w4) \<Rightarrow> Some w4
                 | (None, w4) \<Rightarrow> worker_loop h wk processMessages next' (time_Sleep h Second w4))
            | (Inr messages, w3) \<Rightarrow>
                worker_loop h wk processMessages next' (processMessages messages w3))))"

definition Start :: "'w host \<Rightarrow> 'w Worker \<Rightarrow> (RawMessage list \<Rightarrow> 'w \<Rightarrow> 'w) \<Rightarrow> 'w \<Rightarrow> (go_error option \<times> 'w) option" where
  "Start h wk processMessages w =
     (case EnsureGroup (w_buffer wk) (w_streamName wk) (w_groupName wk) w of
        (Some err, w1) \<Rightarrow> Some (Some (Wrap ''failed to ensure consumer group'' err), w1)
      | (None, w1) \<Rightarrow>
          (let (nextClaimAt, w2) =
             (if w_claimIdleTime wk > 0
              then (case time_Now h w1 of (t, w2) \<Rightarrow> (t + w_claimIdleTime wk div 2, w2)) else (0, w1))
           in map_option (\<lambda>w'. (None, w')) (worker_loop h wk processMessages nextClaimAt w2)))"

end
