(* ===== verification/Worker_Trace.thy ===== *)
theory Worker_Trace
  imports Worker
begin

text \<open>
  The calls the worker makes for one message, for interfaces that behave in any way, failures
  included: the interfaces are instrumented to record each call, and the record of
  \<open>processSingleMessageIdempotent\<close> is the decision tree of its documentation.
\<close>

section \<open>Instrumented interfaces\<close>

datatype call =
    CallIsDone string "bool result"
  | CallClaim string "bool result"
  | CallPut string
  | CallRelease string
  | CallMark string
  | CallAck string string "string list"

type_synonym 'w traced = "'w \<times> call list"

definition lift :: "('w \<Rightarrow> 'a \<times> 'w) \<Rightarrow> ('a \<Rightarrow> call list) \<Rightarrow> 'w traced \<Rightarrow> 'a \<times> 'w traced" where
  "lift f c = (\<lambda>(w, tr). case f w of (x, w') \<Rightarrow> (x, w', tr @ c x))"

definition traced_idempotency :: "'w IdempotencyStore \<Rightarrow> 'w traced IdempotencyStore" where
  "traced_idempotency st =
     \<lparr>TryClaimProcessing = \<lambda>e ttl. lift (TryClaimProcessing st e ttl) (\<lambda>r. [CallClaim e r]),
      ReleaseProcessing = \<lambda>e. lift (ReleaseProcessing st e) (\<lambda>_. [CallRelease e]),
      MarkDone = \<lambda>e ttl. lift (MarkDone st e ttl) (\<lambda>_. [CallMark e]),
      IsDone = \<lambda>e. lift (IsDone st e) (\<lambda>r. [CallIsDone e r])\<rparr>"

definition traced_raw_store :: "'w RawEventStore \<Rightarrow> 'w traced RawEventStore" where
  "traced_raw_store st =
     \<lparr>rs_Put = \<lambda>e. lift (rs_Put st e) (\<lambda>_. [CallPut (case e of None \<Rightarrow> [] | Some x \<Rightarrow> re_EventID x)]),
      rs_Get = \<lambda>i. lift (rs_Get st i) (\<lambda>_. []),
      rs_Close = lift (rs_Close st) (\<lambda>_. [])\<rparr>"

definition traced_buffer :: "'w RawBuffer \<Rightarrow> 'w traced RawBuffer" where
  "traced_buffer b =
     \<lparr>PublishRaw = \<lambda>s e. lift (PublishRaw b s e) (\<lambda>_. []),
      EnsureGroup = \<lambda>s g. lift (EnsureGroup b s g) (\<lambda>_. []),
      ReadGroup = \<lambda>s g c n t. lift (ReadGroup b s g c n t) (\<lambda>_. []),
      Ack = \<lambda>s g ids. lift (Ack b s g ids) (\<lambda>_. [CallAck s g ids]),
      ClaimPending = \<lambda>s g c t n. lift (ClaimPending b s g c t n) (\<lambda>_. []),
      Ping = lift (Ping b) (\<lambda>_. []),
      Close = lift (Close b) (\<lambda>_. [])\<rparr>"

definition traced_worker :: "'w Worker \<Rightarrow> 'w traced Worker" where
  "traced_worker wk =
     \<lparr>w_buffer = traced_buffer (w_buffer wk), w_idempotency = map_option traced_idempotency (w_idempotency wk),
      w_rawStore = map_option traced_raw_store (w_rawStore wk), w_detector = w_detector wk,
      w_driftDetector = w_driftDetector wk, w_parserEngine = w_parserEngine wk, w_validator = w_validator wk,
      w_streamName = w_streamName wk, w_groupName = w_groupName wk, w_consumerName = w_consumerName wk,
      w_claimIdleTime = w_claimIdleTime wk, w_lockTTL = w_lockTTL wk, w_doneTTL = w_doneTTL wk,
      w_batchSize = w_batchSize wk, w_concurrency = w_concurrency wk\<rparr>"

definition traced_host :: "'w host \<Rightarrow> 'w traced host" where
  "traced_host h =
     \<lparr>next_uuid = lift (next_uuid h) (\<lambda>_. []), wall_clock = lift (wall_clock h) (\<lambda>_. []),
      event_readings = lift (event_readings h) (\<lambda>_. []), ctx_Err = lift (ctx_Err h) (\<lambda>_. []),
      time_Now = lift (time_Now h) (\<lambda>_. []), time_Sleep = \<lambda>d (w, tr). (time_Sleep h d w, tr)\<rparr>"

lemmas traced_defs = traced_worker_def traced_host_def traced_buffer_def traced_raw_store_def
  traced_idempotency_def lift_def

section \<open>Instrumentation changes nothing\<close>

definition traced_run :: "'w host \<Rightarrow> 'w Worker \<Rightarrow> RawMessage \<Rightarrow> 'w \<Rightarrow> 'w \<times> call list" where
  "traced_run h wk msg w = processSingleMessageIdempotent (traced_host h) (traced_worker wk) msg (w, [])"

definition put_calls :: "'w Worker \<Rightarrow> string \<Rightarrow> call list" where
  "put_calls wk e = (case w_rawStore wk of None \<Rightarrow> [] | Some _ \<Rightarrow> [CallPut e])"

lemma traced_worker_stages [simp]:
  "w_detector (traced_worker wk) = w_detector wk" "w_driftDetector (traced_worker wk) = w_driftDetector wk"
  "w_parserEngine (traced_worker wk) = w_parserEngine wk" "w_validator (traced_worker wk) = w_validator wk"
  by (simp_all add: traced_worker_def)

lemma run_pipeline_traced: "run_pipeline (traced_worker wk) rd c e = run_pipeline wk rd c e"
  unfolding run_pipeline_def traced_worker_stages by (rule refl)

lemma store_raw_traced:
  "store_raw (traced_worker wk) e (w, tr) = (store_raw wk e w, tr @ put_calls wk (re_EventID e))"
  by (simp add: store_raw_def put_calls_def traced_defs split: option.split prod.split)

lemma Process_traced:
  "ProcessSingleEvent (traced_host h) (traced_worker wk) e (w, tr) =
     (case ProcessSingleEvent h wk e w of (r, w') \<Rightarrow> (r, w', tr @ put_calls wk (re_EventID e)))"
  by (simp add: ProcessSingleEvent_def store_raw_traced run_pipeline_traced traced_host_def lift_def
      split: prod.split)

lemma ack_traced:
  "ack (traced_worker wk) msg (w, tr) = (ack wk msg w, tr @ [CallAck (w_streamName wk) (w_groupName wk) [rm_ID msg]])"
  by (simp add: ack_def traced_defs split: prod.split)

definition lock_calls :: "'w Worker \<Rightarrow> call \<Rightarrow> call list" where
  "lock_calls wk c = (case w_idempotency wk of None \<Rightarrow> [] | Some _ \<Rightarrow> [c])"

lemma release_traced:
  "release_lock (traced_worker wk) e (w, tr) = (release_lock wk e w, tr @ lock_calls wk (CallRelease e))"
  by (simp add: release_lock_def lock_calls_def traced_defs split: prod.split option.split)

lemma mark_traced:
  "mark_done (traced_worker wk) e (w, tr) = (mark_done wk e w, tr @ lock_calls wk (CallMark e))"
  by (simp add: mark_done_def lock_calls_def traced_defs split: prod.split option.split)

section \<open>The decision tree\<close>

text \<open>The gate's outcome and calls, from what the two idempotency calls returned.\<close>

definition gate_calls :: "string \<Rightarrow> bool result \<Rightarrow> bool result \<Rightarrow> gate \<times> call list" where
  "gate_calls e done claimed =
     (if done = Inr True then (SkipAck, [CallIsDone e done])
      else if claimed = Inr False then (SkipNoAck, [CallIsDone e done, CallClaim e claimed])
      else (Proceed, [CallIsDone e done, CallClaim e claimed]))"

lemma check_gate_traced:
  assumes "w_idempotency wk = Some st"
  shows "\<exists>done claimed g w'. check_gate wk e w = (g, w') \<and> g = fst (gate_calls e done claimed) \<and>
    check_gate (traced_worker wk) e (w, tr) = (g, w', tr @ snd (gate_calls e done claimed)) \<and>
    done = fst (IsDone st e w) \<and> claimed = fst (TryClaimProcessing st e (w_lockTTL wk) (snd (IsDone st e w)))"
proof -
  obtain r w1 where d: "IsDone st e w = (r, w1)" by force
  obtain c w2 where t: "TryClaimProcessing st e (w_lockTTL wk) w1 = (c, w2)" by force
  show ?thesis
    by (auto simp: check_gate_def traced_defs assms d t gate_calls_def split: sum.splits bool.splits)
qed

lemma check_gate_none: "w_idempotency wk = None \<Longrightarrow> check_gate wk e w = (Proceed, w)"
  by (simp add: check_gate_def)

text \<open>The calls after the gate.\<close>

definition outcome_calls :: "'w Worker \<Rightarrow> RawMessage \<Rightarrow> gate \<Rightarrow> bool \<Rightarrow> call list" where
  "outcome_calls wk msg g ok =
     (let e = re_EventID (rm_Event msg);
          ackc = CallAck (w_streamName wk) (w_groupName wk) [rm_ID msg]
      in case g of
           SkipAck \<Rightarrow> [ackc]
         | SkipNoAck \<Rightarrow> []
         | Proceed \<Rightarrow> put_calls wk e @
             (if ok then lock_calls wk (CallMark e) @ [ackc] else lock_calls wk (CallRelease e)))"

text \<open>Everything the worker does for a message, in terms of the gate and the pipeline.\<close>

lemma traced_run_cases:
  assumes "check_gate (traced_worker wk) (re_EventID (rm_Event msg)) (w, []) = (g, w1, tr1)"
    and "ProcessSingleEvent h wk (rm_Event msg) w1 = (r, w2)"
  shows "snd (traced_run h wk msg w) = tr1 @ outcome_calls wk msg g (\<not> isl r)"
  using assms
  by (cases g; cases r)
    (simp_all add: traced_run_def processSingleMessageIdempotent_def Let_def outcome_calls_def Process_traced
      ack_traced mark_traced release_traced)

lemma decision_tree:
  fixes msg :: RawMessage and w :: 'w and h :: "'w host" and wk :: "'w Worker" and st :: "'w IdempotencyStore"
  assumes st: "w_idempotency wk = Some st"
  defines "e \<equiv> re_EventID (rm_Event msg)"
  defines "done \<equiv> fst (IsDone st e w)"
  defines "claimed \<equiv> fst (TryClaimProcessing st e (w_lockTTL wk) (snd (IsDone st e w)))"
  defines "ok \<equiv> \<not> isl (fst (ProcessSingleEvent h wk (rm_Event msg) (snd (check_gate wk e w))))"
  shows "snd (traced_run h wk msg w) =
    snd (gate_calls e done claimed) @ outcome_calls wk msg (fst (gate_calls e done claimed)) ok"
proof -
  obtain g w' where g: "check_gate wk e w = (g, w')" "g = fst (gate_calls e done claimed)"
      "check_gate (traced_worker wk) e (w, []) = (g, w', snd (gate_calls e done claimed))"
    using check_gate_traced [OF st, of e w "[]"] unfolding done_def claimed_def by auto
  obtain r w2 where r: "ProcessSingleEvent h wk (rm_Event msg) w' = (r, w2)" by force
  show ?thesis
    using traced_run_cases [OF g(3) [unfolded e_def] r] g(1,2) r unfolding ok_def e_def by simp
qed

end
