(* ===== verification/Worker_Loop.thy ===== *)
theory Worker_Loop
  imports Worker
begin

text \<open>
  The consumer loop \<open>Start\<close>, round by round: it returns exactly when a round sees the context
  cancelled, with no error once the consumer group exists.
\<close>

section \<open>Rounds\<close>

text \<open>One round of the loop: \<open>Inl\<close> goes on, \<open>Inr\<close> returns.\<close>

definition loop_round ::
  "'w host \<Rightarrow> 'w Worker \<Rightarrow> (RawMessage list \<Rightarrow> 'w \<Rightarrow> 'w) \<Rightarrow> int \<times> 'w \<Rightarrow> int \<times> 'w + 'w" where
  "loop_round h wk processMessages s =
     (case ctx_Err h (snd s) of
        (Some _, w1) \<Rightarrow> Inr w1
      | (None, w1) \<Rightarrow>
          (case claim_step h wk processMessages (fst s) w1 of (next', w2) \<Rightarrow>
           (case ReadGroup (w_buffer wk) (w_streamName wk) (w_groupName wk) (w_consumerName wk)
                   (w_batchSize wk) (2 * Second) w2 of
              (Inl _, w3) \<Rightarrow>
                (case ctx_Err h w3 of
                   (Some _, w4) \<Rightarrow> Inr w4
                 | (None, w4) \<Rightarrow> Inl (next', time_Sleep h Second w4))
            | (Inr messages, w3) \<Rightarrow> Inl (next', processMessages messages w3))))"

fun rounds :: "'w host \<Rightarrow> 'w Worker \<Rightarrow> (RawMessage list \<Rightarrow> 'w \<Rightarrow> 'w) \<Rightarrow> nat \<Rightarrow> int \<times> 'w \<Rightarrow> int \<times> 'w + 'w" where
  "rounds h wk pm 0 s = Inl s"
| "rounds h wk pm (Suc n) s = (case loop_round h wk pm s of Inr w \<Rightarrow> Inr w | Inl s' \<Rightarrow> rounds h wk pm n s')"

lemma worker_loop_round:
  "worker_loop h wk pm t w =
     (case loop_round h wk pm (t, w) of Inr w' \<Rightarrow> Some w' | Inl (t', w') \<Rightarrow> worker_loop h wk pm t' w')"
  by (subst worker_loop.simps) (simp add: loop_round_def split: prod.split sum.split option.split)

lemma rounds_return: "rounds h wk pm n (t, w) = Inr w' \<Longrightarrow> worker_loop h wk pm t w = Some w'"
proof (induction n arbitrary: t w)
  case (Suc n)
  show ?case
  proof (cases "loop_round h wk pm (t, w)")
    case (Inl s)
    then obtain t1 w1 where "loop_round h wk pm (t, w) = Inl (t1, w1)" by (cases s) simp
    with Suc show ?thesis by (subst worker_loop_round) simp
  next
    case (Inr x)
    then show ?thesis using Suc.prems by (subst worker_loop_round) simp
  qed
qed simp

lemma return_rounds:
  assumes "worker_loop h wk pm t w = Some w'"
  shows "\<exists>n. rounds h wk pm n (t, w) = Inr w'"
proof (rule worker_loop.raw_induct [where P = "\<lambda>h wk pm t w w'. \<exists>n. rounds h wk pm n (t, w) = Inr w'", OF _ assms],
    goal_cases)
  case (1 f h wk pm t w w')
  let ?r = "loop_round h wk pm (t, w)"
  have "case ?r of Inr x \<Rightarrow> x = w' | Inl (t1, w1) \<Rightarrow> f h wk pm t1 w1 = Some w'"
    using 1(2) by (auto simp: loop_round_def split: prod.splits sum.splits option.splits)
  then consider "?r = Inr w'" | t1 w1 where "?r = Inl (t1, w1)" "f h wk pm t1 w1 = Some w'"
    by (auto split: sum.splits)
  then show ?case
  proof cases
    case 1
    then show ?thesis by (intro exI [of _ 1]) simp
  next
    case (2 t1 w1)
    then obtain n where "rounds h wk pm n (t1, w1) = Inr w'" using 1(1) by blast
    then show ?thesis using 2 by (intro exI [of _ "Suc n"]) simp
  qed
qed

lemma worker_loop_iff: "worker_loop h wk pm t w = Some w' \<longleftrightarrow> (\<exists>n. rounds h wk pm n (t, w) = Inr w')"
  using rounds_return return_rounds by metis

lemma rounds_cancelled:
  assumes "rounds h wk pm n s = Inl (t, w)" and "fst (ctx_Err h w) = Some er"
  shows "\<exists>w'. rounds h wk pm (Suc n) s = Inr w'"
  using assms
proof (induction n arbitrary: s)
  case 0
  then show ?case by (cases "ctx_Err h w") (simp add: loop_round_def)
next
  case (Suc n)
  then obtain s' where s': "loop_round h wk pm s = Inl s'" "rounds h wk pm n s' = Inl (t, w)"
    by (auto split: sum.splits)
  from Suc.IH [OF s'(2) Suc.prems(2)] show ?case using s'(1) by simp
qed

text \<open>The state the loop starts from after the group exists.\<close>

definition loop_start :: "'w host \<Rightarrow> 'w Worker \<Rightarrow> 'w \<Rightarrow> int \<times> 'w" where
  "loop_start h wk w =
     (if w_claimIdleTime wk > 0
      then (case time_Now h w of (t, w') \<Rightarrow> (t + w_claimIdleTime wk div 2, w')) else (0, w))"

lemma Start_loop:
  "Start h wk pm w =
     (case EnsureGroup (w_buffer wk) (w_streamName wk) (w_groupName wk) w of
        (Some err, w1) \<Rightarrow> Some (Some (Wrap ''failed to ensure consumer group'' err), w1)
      | (None, w1) \<Rightarrow>
          map_option (Pair None) (worker_loop h wk pm (fst (loop_start h wk w1)) (snd (loop_start h wk w1))))"
  by (simp add: Start_def loop_start_def split: prod.split option.split)

end
