(* ===== verification/Worker_Contract.thy ===== *)
theory Worker_Contract
  imports Worker
begin

text \<open>
  What processing a message promises, stated on an abstract ledger: the ids with a processing
  lock, the completed event ids and the outstanding (delivered, not acknowledged) messages.
  The worker refines the ledger when its services answer and keep their contracts.
\<close>

section \<open>Ledger\<close>

record ledger =
  held :: "string set"
  completed :: "string set"
  outstanding :: "string set"

abbreviation event_id :: "RawMessage \<Rightarrow> string" where
  "event_id m \<equiv> re_EventID (rm_Event m)"

text \<open>
  \<open>frees\<close>: completing an event also removes its lock.  \<open>good\<close>: the pipeline accepts the event.
\<close>

definition ledger_process :: "bool \<Rightarrow> (RawEvent \<Rightarrow> bool) \<Rightarrow> RawMessage \<Rightarrow> ledger \<Rightarrow> ledger" where
  "ledger_process frees good m l =
     (if event_id m \<in> completed l then l\<lparr>outstanding := outstanding l - {rm_ID m}\<rparr>
      else if event_id m \<in> held l then l
      else if good (rm_Event m) then
        l\<lparr>held := (if frees then held l - {event_id m} else insert (event_id m) (held l)),
          completed := insert (event_id m) (completed l), outstanding := outstanding l - {rm_ID m}\<rparr>
      else l\<lparr>held := held l - {event_id m}\<rparr>)"

definition ledger_batch :: "bool \<Rightarrow> (RawEvent \<Rightarrow> bool) \<Rightarrow> RawMessage list \<Rightarrow> ledger \<Rightarrow> ledger" where
  "ledger_batch frees good ms l = fold (ledger_process frees good) ms l"

lemma ledger_process_mono:
  "completed l \<subseteq> completed (ledger_process fr good m l)" "outstanding (ledger_process fr good m l) \<subseteq> outstanding l"
  by (auto simp: ledger_process_def)

lemma ledger_batch_mono:
  "completed l \<subseteq> completed (ledger_batch fr good ms l) \<and> outstanding (ledger_batch fr good ms l) \<subseteq> outstanding l"
proof (induction ms arbitrary: l)
  case (Cons m ms)
  let ?l = "ledger_process fr good m l"
  have "completed ?l \<subseteq> completed (ledger_batch fr good ms ?l) \<and>
      outstanding (ledger_batch fr good ms ?l) \<subseteq> outstanding ?l" by (rule Cons.IH)
  then show ?case using ledger_process_mono(1) [of l fr good m] ledger_process_mono(2) [of fr good m l]
    by (simp add: ledger_batch_def) blast
qed (simp add: ledger_batch_def)

text \<open>Locks without a completed event block nothing once they are gone.\<close>

lemma ledger_process_held:
  "held l \<subseteq> completed l \<Longrightarrow> held (ledger_process fr good m l) \<subseteq> completed (ledger_process fr good m l)"
  by (auto simp: ledger_process_def)

lemma ledger_batch_good:
  assumes "held l \<subseteq> completed l" and "m \<in> set ms" and "good (rm_Event m)"
  shows "event_id m \<in> completed (ledger_batch fr good ms l) \<and> rm_ID m \<notin> outstanding (ledger_batch fr good ms l)"
  using assms
proof (induction ms arbitrary: l)
  case (Cons x xs)
  let ?l = "ledger_process fr good x l"
  have b: "ledger_batch fr good (x # xs) l = ledger_batch fr good xs ?l" by (simp add: ledger_batch_def)
  show ?case
  proof (cases "m \<in> set xs")
    case True
    then show ?thesis using Cons ledger_process_held b by metis
  next
    case False
    then have "x = m" using Cons.prems by simp
    then have "event_id m \<in> completed ?l \<and> rm_ID m \<notin> outstanding ?l"
      using Cons.prems by (auto simp: ledger_process_def)
    then show ?thesis using ledger_batch_mono [of ?l fr good xs] b by auto
  qed
qed simp

text \<open>A message leaves the outstanding set only with its event completed.\<close>

lemma ledger_batch_safe:
  assumes "i \<in> outstanding l" and "i \<notin> outstanding (ledger_batch fr good ms l)"
  shows "\<exists>m \<in> set ms. rm_ID m = i \<and> event_id m \<in> completed (ledger_batch fr good ms l)"
  using assms
proof (induction ms arbitrary: l)
  case (Cons x xs)
  let ?l = "ledger_process fr good x l"
  have b: "ledger_batch fr good (x # xs) l = ledger_batch fr good xs ?l" by (simp add: ledger_batch_def)
  show ?case
  proof (cases "i \<in> outstanding ?l")
    case True
    then show ?thesis using Cons.IH [OF True] Cons.prems b by auto
  next
    case False
    then have "rm_ID x = i \<and> event_id x \<in> completed ?l"
      using Cons.prems(1) by (auto simp: ledger_process_def split: if_splits)
    then show ?thesis using ledger_batch_mono [of ?l fr good xs] b by auto
  qed
qed (simp add: ledger_batch_def)

section \<open>Services\<close>

locale worker_services = idempotency_store st locked finished frees
  for st :: "'w IdempotencyStore" and locked finished and frees +
  fixes h :: "'w host"
    and wk :: "'w Worker"
    and unacked :: "'w \<Rightarrow> string set"
    and good :: "RawEvent \<Rightarrow> bool"
  assumes uses_store: "w_idempotency wk = Some st"
    and lock_ttl: "0 < w_lockTTL wk"
    and done_ttl: "0 < w_doneTTL wk"
    and claim_quiet: "unacked (snd (TryClaimProcessing st e ttl w)) = unacked w"
    and release_quiet: "unacked (snd (ReleaseProcessing st e w)) = unacked w"
    and mark_quiet: "unacked (snd (MarkDone st e ttl w)) = unacked w"
    and query_quiet: "unacked (snd (IsDone st e w)) = unacked w"
    and ack_law: "unacked (ack wk m w) = unacked w - {rm_ID m} \<and> locked (ack wk m w) = locked w \<and>
      finished (ack wk m w) = finished w"
    and pipeline_law: "ProcessSingleEvent h wk ev w = (r, w') \<Longrightarrow> (isl r \<longleftrightarrow> \<not> good ev) \<and>
      locked w' = locked w \<and> finished w' = finished w \<and> unacked w' = unacked w"
    and context_law: "ctx_Err h w = (er, w') \<Longrightarrow>
      locked w' = locked w \<and> finished w' = finished w \<and> unacked w' = unacked w"
begin

definition view :: "'w \<Rightarrow> ledger" where
  "view w = \<lparr>held = locked w, completed = finished w, outstanding = unacked w\<rparr>"

lemma gate_view:
  "\<exists>w'. check_gate wk e w =
     (if e \<in> finished w then SkipAck else if e \<in> locked w then SkipNoAck else Proceed, w') \<and>
     view w' = (if e \<in> finished w \<or> e \<in> locked w then view w else (view w)\<lparr>held := insert e (locked w)\<rparr>)"
proof -
  obtain w1 where q: "IsDone st e w = (Inr (e \<in> finished w), w1)" "locked w1 = locked w"
      "finished w1 = finished w" "unacked w1 = unacked w"
    using query_law [of e w] query_quiet [of e w] by auto
  obtain w2 where c: "TryClaimProcessing st e (w_lockTTL wk) w1 = (Inr (e \<notin> locked w), w2)"
      "locked w2 = insert e (locked w)" "finished w2 = finished w" "unacked w2 = unacked w"
    using claim_law [OF lock_ttl, of e w1] claim_quiet [of e "w_lockTTL wk" w1] q by auto
  show ?thesis
    using q c by (cases "e \<in> finished w"; cases "e \<in> locked w")
      (simp_all add: check_gate_def uses_store view_def insert_absorb)
qed

lemma mark_view:
  "view (mark_done wk e w) =
     (view w)\<lparr>held := (if frees then held (view w) - {e} else held (view w)), completed := insert e (completed (view w))\<rparr>"
  using done_law [OF done_ttl, of e w] mark_quiet [of e "w_doneTTL wk" w]
  by (auto simp: mark_done_def uses_store view_def)

lemma release_view: "view (release_lock wk e w) = (view w)\<lparr>held := held (view w) - {e}\<rparr>"
  using release_law [of e w] release_quiet [of e w] by (auto simp: release_lock_def uses_store view_def)

lemma ack_view: "view (ack wk m w) = (view w)\<lparr>outstanding := outstanding (view w) - {rm_ID m}\<rparr>"
  using ack_law [of m w] by (simp add: view_def)

theorem refines: "view (processSingleMessageIdempotent h wk m w) = ledger_process frees good m (view w)"
proof -
  let ?e = "event_id m"
  obtain w1 where g: "check_gate wk ?e w =
      (if ?e \<in> finished w then SkipAck else if ?e \<in> locked w then SkipNoAck else Proceed, w1)"
      "view w1 = (if ?e \<in> finished w \<or> ?e \<in> locked w then view w else (view w)\<lparr>held := insert ?e (locked w)\<rparr>)"
    using gate_view by blast
  obtain r w2 where p: "ProcessSingleEvent h wk (rm_Event m) w1 = (r, w2)" by force
  note q = pipeline_law [OF p]
  then have "view w2 = view w1" by (simp add: view_def)
  note v = this [unfolded g(2)]
  consider "?e \<in> finished w" | "?e \<notin> finished w" "?e \<in> locked w" | "?e \<notin> finished w" "?e \<notin> locked w" by blast
  then show ?thesis
  proof cases
    case 3
    show ?thesis
    proof (cases r)
      case (Inl er)
      then show ?thesis using 3 g(1) p q v
        by (simp add: processSingleMessageIdempotent_def ledger_process_def release_view) (simp add: view_def)
    next
      case (Inr x)
      then show ?thesis using 3 g(1) p q v
        by (simp add: processSingleMessageIdempotent_def ledger_process_def ack_view mark_view) (simp add: view_def)
    qed
  qed (use g in \<open>simp_all add: processSingleMessageIdempotent_def ledger_process_def ack_view, simp_all add: view_def\<close>)
qed

text \<open>A sequential batch refines the ledger on the prefix before cancellation.\<close>

lemma sequential_refines:
  "\<exists>k \<le> length ms. view (process_sequential h wk ms w) = ledger_batch frees good (take k ms) (view w)"
proof (induction ms arbitrary: w)
  case (Cons m ms)
  obtain er w1 where c: "ctx_Err h w = (er, w1)" by force
  then have v: "view w1 = view w" using context_law by (simp add: view_def)
  show ?case
  proof (cases er)
    case None
    obtain k where "k \<le> length ms"
        "view (process_sequential h wk ms (processSingleMessageIdempotent h wk m w1)) =
         ledger_batch frees good (take k ms) (ledger_process frees good m (view w))"
      using Cons.IH [of "processSingleMessageIdempotent h wk m w1"] by (auto simp: refines v)
    then show ?thesis using c None by (intro exI [of _ "Suc k"]) (simp add: ledger_batch_def)
  next
    case (Some x)
    then show ?thesis using c v by (intro exI [of _ 0]) (simp add: ledger_batch_def)
  qed
qed (simp add: ledger_batch_def)

lemma sequential_refines_all:
  assumes "\<And>w. fst (ctx_Err h w) = None"
  shows "view (process_sequential h wk ms w) = ledger_batch frees good ms (view w)"
proof (induction ms arbitrary: w)
  case (Cons m ms)
  obtain w1 where c: "ctx_Err h w = (None, w1)" using assms [of w] by (cases "ctx_Err h w") auto
  then have "view w1 = view w" using context_law by (simp add: view_def)
  then show ?case using Cons.IH c by (simp add: refines ledger_batch_def)
qed (simp add: ledger_batch_def)

end

end
