(* ===== verification/Worker_Concurrency.thy ===== *)
theory Worker_Concurrency
  imports Worker_Contract
begin

text \<open>
  Interleavings: goroutines of one or of several worker processes that run
  \<open>processSingleMessageIdempotent\<close> on a shared world, one service call at a time.
\<close>

section \<open>One goroutine, call by call\<close>

datatype pc = AtIsDone | AtClaim | AtProcess | AtRelease | AtMark | AtAck | AtEnd

definition message_step :: "'w host \<Rightarrow> 'w Worker \<Rightarrow> RawMessage \<Rightarrow> pc \<Rightarrow> 'w \<Rightarrow> pc \<times> 'w" where
  "message_step h wk msg p w =
     (let e = event_id msg in
      case p of
        AtIsDone \<Rightarrow>
          (case w_idempotency wk of
             None \<Rightarrow> (AtProcess, w)
           | Some st \<Rightarrow> (case IsDone st e w of (Inr True, w1) \<Rightarrow> (AtAck, w1) | (_, w1) \<Rightarrow> (AtClaim, w1)))
      | AtClaim \<Rightarrow>
          (case w_idempotency wk of
             None \<Rightarrow> (AtProcess, w)
           | Some st \<Rightarrow> (case TryClaimProcessing st e (w_lockTTL wk) w of
                 (Inr False, w1) \<Rightarrow> (AtEnd, w1) | (_, w1) \<Rightarrow> (AtProcess, w1)))
      | AtProcess \<Rightarrow>
          (case ProcessSingleEvent h wk (rm_Event msg) w of (Inl _, w1) \<Rightarrow> (AtRelease, w1) | (Inr _, w1) \<Rightarrow> (AtMark, w1))
      | AtRelease \<Rightarrow> (AtEnd, release_lock wk e w)
      | AtMark \<Rightarrow> (AtAck, mark_done wk e w)
      | AtAck \<Rightarrow> (AtEnd, ack wk msg w)
      | AtEnd \<Rightarrow> (AtEnd, w))"

fun message_steps :: "'w host \<Rightarrow> 'w Worker \<Rightarrow> RawMessage \<Rightarrow> nat \<Rightarrow> pc \<times> 'w \<Rightarrow> pc \<times> 'w" where
  "message_steps h wk msg 0 s = s"
| "message_steps h wk msg (Suc n) s = message_steps h wk msg n (message_step h wk msg (fst s) (snd s))"

text \<open>Run alone, five steps are the whole handler.\<close>

lemma message_steps_end [simp]: "message_steps h wk msg n (AtEnd, w) = (AtEnd, w)"
  by (induction n) (simp_all add: message_step_def)

lemma steps_from_process:
  "message_steps h wk msg (Suc (Suc (Suc n))) (AtProcess, w) =
     (AtEnd, case ProcessSingleEvent h wk (rm_Event msg) w of
        (Inl _, w2) \<Rightarrow> release_lock wk (event_id msg) w2
      | (Inr _, w2) \<Rightarrow> ack wk msg (mark_done wk (event_id msg) w2))"
proof -
  obtain r w2 where "ProcessSingleEvent h wk (rm_Event msg) w = (r, w2)" by force
  then show ?thesis by (cases r) (simp_all add: message_step_def)
qed

lemma five: "(5::nat) = Suc (Suc (Suc (Suc (Suc 0))))"
  by simp

lemma steps_are_handler:
  "message_steps h wk msg 5 (AtIsDone, w) = (AtEnd, processSingleMessageIdempotent h wk msg w)"
proof (cases "w_idempotency wk")
  case None
  then have "message_step h wk msg AtIsDone w = (AtProcess, w)" by (simp add: message_step_def)
  then show ?thesis using None
    unfolding five message_steps.simps(2) [of h wk msg _ "(AtIsDone, w)"]
    by (simp add: steps_from_process processSingleMessageIdempotent_def check_gate_def Let_def
        del: message_steps.simps(2))
next
  case (Some st)
  let ?e = "event_id msg"
  obtain d w1 where d: "IsDone st ?e w = (d, w1)" by force
  obtain c w2 where c: "TryClaimProcessing st ?e (w_lockTTL wk) w1 = (c, w2)" by force
  have f: "message_step h wk msg AtIsDone w = (if d = Inr True then AtAck else AtClaim, w1)"
    using Some d by (auto simp: message_step_def split: sum.splits bool.splits)
  have g: "message_step h wk msg AtClaim w1 = (if c = Inr False then AtEnd else AtProcess, w2)"
    using Some c by (auto simp: message_step_def split: sum.splits bool.splits)
  have k: "check_gate wk ?e w = (if d = Inr True then (SkipAck, w1) else if c = Inr False then (SkipNoAck, w2)
      else (Proceed, w2))"
    using Some d c by (auto simp: check_gate_def split: sum.splits bool.splits)
  show ?thesis
  proof (cases "d = Inr True")
    case True
    then show ?thesis unfolding five by (simp add: f k processSingleMessageIdempotent_def message_step_def [of h wk msg AtAck])
  next
    case False
    show ?thesis
      unfolding five message_steps.simps(2) [of h wk msg _ "(AtIsDone, w)"]
        message_steps.simps(2) [of h wk msg "Suc (Suc (Suc 0))"]
      using False
      by (simp add: f g k processSingleMessageIdempotent_def Let_def steps_from_process del: message_steps.simps(2))
  qed
qed

fun steps_left :: "pc \<Rightarrow> nat" where
  "steps_left AtIsDone = 5"
| "steps_left AtClaim = 4"
| "steps_left AtProcess = 3"
| "steps_left AtRelease = 1"
| "steps_left AtMark = 2"
| "steps_left AtAck = 1"
| "steps_left AtEnd = 0"

lemma message_step_decreases:
  "p \<noteq> AtEnd \<Longrightarrow> message_step h wk msg p w = (p', w') \<Longrightarrow> steps_left p' < steps_left p"
  by (cases p) (auto simp: message_step_def Let_def split: option.splits prod.splits sum.splits bool.splits)

section \<open>Interleavings\<close>

text \<open>
  A system: the message and worker of every goroutine, where each stands, the shared world,
  and the goroutines whose pipeline run has succeeded, in order.
\<close>

record 'w system =
  sy_pcs :: "pc list"
  sy_world :: 'w
  sy_runs :: "nat list"

type_synonym 'w thread = "'w Worker \<times> RawMessage"

definition start_system :: "'w thread list \<Rightarrow> 'w \<Rightarrow> 'w system" where
  "start_system ts w = \<lparr>sy_pcs = replicate (length ts) AtIsDone, sy_world = w, sy_runs = []\<rparr>"

inductive system_step :: "'w host \<Rightarrow> 'w thread list \<Rightarrow> 'w system \<Rightarrow> 'w system \<Rightarrow> bool" for h ts where
  goroutine: "i < length (sy_pcs s) \<Longrightarrow> sy_pcs s ! i \<noteq> AtEnd \<Longrightarrow>
     message_step h (fst (ts ! i)) (snd (ts ! i)) (sy_pcs s ! i) (sy_world s) = (p, w) \<Longrightarrow>
     system_step h ts s \<lparr>sy_pcs = (sy_pcs s)[i := p], sy_world = w,
       sy_runs = (if p = AtMark then sy_runs s @ [i] else sy_runs s)\<rparr>"

inductive_cases system_stepE: "system_step h ts s s'"

inductive system_reach :: "'w host \<Rightarrow> 'w thread list \<Rightarrow> 'w system \<Rightarrow> nat \<Rightarrow> 'w system \<Rightarrow> bool" for h ts where
  reach_start: "system_reach h ts s 0 s"
| reach_step: "system_reach h ts s n s' \<Longrightarrow> system_step h ts s' s'' \<Longrightarrow> system_reach h ts s (Suc n) s''"

text \<open>Every schedule ends: a goroutine makes at most five calls.\<close>

definition work_left :: "'w system \<Rightarrow> nat" where
  "work_left s = sum_list (map steps_left (sy_pcs s))"

lemma system_step_decreases: "system_step h ts s s' \<Longrightarrow> work_left s' < work_left s"
  by (auto elim!: system_stepE simp: work_left_def intro!: sum_list_update_less message_step_decreases)

lemma system_reach_bound: "system_reach h ts s n s' \<Longrightarrow> n + work_left s' \<le> work_left s"
  by (induction rule: system_reach.induct) (auto dest: system_step_decreases)

lemma work_left_start: "work_left (start_system ts w) = 5 * length ts"
  by (simp add: work_left_def start_system_def sum_list_replicate)

text \<open>A system stops only when every goroutine has.\<close>

lemma system_progress:
  "(\<exists>s'. system_step h ts s s') \<longleftrightarrow> (\<exists>p \<in> set (sy_pcs s). p \<noteq> AtEnd)"
proof
  assume "\<exists>p \<in> set (sy_pcs s). p \<noteq> AtEnd"
  then obtain i where "i < length (sy_pcs s)" "sy_pcs s ! i \<noteq> AtEnd" by (metis in_set_conv_nth)
  moreover obtain p w where "message_step h (fst (ts ! i)) (snd (ts ! i)) (sy_pcs s ! i) (sy_world s) = (p, w)"
    by force
  ultimately show "\<exists>s'. system_step h ts s s'" by (blast intro: goroutine)
qed (auto elim!: system_stepE)

section \<open>Exclusion\<close>

definition owner_pc :: "pc \<Rightarrow> bool" where
  "owner_pc p \<longleftrightarrow> p = AtProcess \<or> p = AtRelease \<or> p = AtMark"

definition thread_event :: "'w thread list \<Rightarrow> nat \<Rightarrow> string" where
  "thread_event ts i = event_id (snd (ts ! i))"

context worker_services
begin

text \<open>The effect of one step on the locks.\<close>

lemma step_locks:
  assumes "message_step h wk m p w = (p', w')" and "p \<noteq> AtEnd"
  shows "p = AtIsDone \<and> (p' = AtAck \<or> p' = AtClaim) \<and> locked w' = locked w \<or>
    p = AtAck \<and> p' = AtEnd \<and> locked w' = locked w \<or>
    p = AtClaim \<and> event_id m \<in> locked w \<and> p' = AtEnd \<and> locked w' = locked w \<or>
    p = AtClaim \<and> event_id m \<notin> locked w \<and> p' = AtProcess \<and> locked w' = insert (event_id m) (locked w) \<or>
    p = AtProcess \<and> (p' = AtRelease \<or> p' = AtMark) \<and> locked w' = locked w \<or>
    p = AtRelease \<and> p' = AtEnd \<and> locked w' = locked w - {event_id m} \<or>
    p = AtMark \<and> p' = AtAck \<and> locked w' = (if frees then locked w - {event_id m} else locked w)"
proof (cases p)
  case AtIsDone
  then show ?thesis using assms(1) query_law [of "event_id m" w]
    by (auto simp: message_step_def uses_store split: bool.splits)
next
  case AtClaim
  then show ?thesis using assms(1) claim_law [OF lock_ttl, of "event_id m" w]
    by (auto simp: message_step_def uses_store split: bool.splits)
next
  case AtProcess
  obtain r w1 where r: "ProcessSingleEvent h wk (rm_Event m) w = (r, w1)" by force
  then show ?thesis using AtProcess assms(1) pipeline_law [OF r]
    by (auto simp: message_step_def split: sum.splits)
next
  case AtRelease
  then show ?thesis using assms(1) release_law [of "event_id m" w]
    by (auto simp: message_step_def release_lock_def uses_store)
next
  case AtMark
  then show ?thesis using assms(1) done_law [OF done_ttl, of "event_id m" w]
    by (auto simp: message_step_def mark_done_def uses_store)
next
  case AtAck
  then show ?thesis using assms(1) ack_law [of m w] by (auto simp: message_step_def)
qed (use assms in simp)

end

text \<open>Every goroutine uses services that keep the contract on the same locks and markers.\<close>

locale shared_services =
  fixes st :: "'w IdempotencyStore"
    and locked finished :: "'w \<Rightarrow> string set"
    and frees :: bool
    and h :: "'w host"
    and ts :: "'w thread list"
    and unacked :: "'w \<Rightarrow> string set"
    and good :: "RawEvent \<Rightarrow> bool"
  assumes services: "i < length ts \<Longrightarrow> worker_services st locked finished frees h (fst (ts ! i)) unacked good"
begin

abbreviation ev :: "nat \<Rightarrow> string" where
  "ev \<equiv> thread_event ts"

text \<open>At most one owner per event, and its lock is held.\<close>

definition exclusive :: "'w system \<Rightarrow> bool" where
  "exclusive s \<longleftrightarrow> length (sy_pcs s) = length ts \<and>
     (\<forall>i < length ts. owner_pc (sy_pcs s ! i) \<longrightarrow> ev i \<in> locked (sy_world s)) \<and>
     (\<forall>i < length ts. \<forall>j < length ts. owner_pc (sy_pcs s ! i) \<longrightarrow> owner_pc (sy_pcs s ! j) \<longrightarrow> ev i = ev j \<longrightarrow> i = j)"

text \<open>Where completion keeps the lock, a successful run excludes every other one.\<close>

definition run_once :: "'w system \<Rightarrow> bool" where
  "run_once s \<longleftrightarrow> distinct (map ev (sy_runs s)) \<and>
     (\<forall>i \<in> set (sy_runs s). ev i \<in> locked (sy_world s) \<and>
        (\<forall>j < length ts. owner_pc (sy_pcs s ! j) \<longrightarrow> ev j = ev i \<longrightarrow> sy_pcs s ! j = AtMark))"

lemma goroutine_locks:
  assumes "i < length ts" and "message_step h (fst (ts ! i)) (snd (ts ! i)) p w = (p', w')" and "p \<noteq> AtEnd"
  shows "p = AtIsDone \<and> (p' = AtAck \<or> p' = AtClaim) \<and> locked w' = locked w \<or>
    p = AtAck \<and> p' = AtEnd \<and> locked w' = locked w \<or>
    p = AtClaim \<and> ev i \<in> locked w \<and> p' = AtEnd \<and> locked w' = locked w \<or>
    p = AtClaim \<and> ev i \<notin> locked w \<and> p' = AtProcess \<and> locked w' = insert (ev i) (locked w) \<or>
    p = AtProcess \<and> (p' = AtRelease \<or> p' = AtMark) \<and> locked w' = locked w \<or>
    p = AtRelease \<and> p' = AtEnd \<and> locked w' = locked w - {ev i} \<or>
    p = AtMark \<and> p' = AtAck \<and> locked w' = (if frees then locked w - {ev i} else locked w)"
  using worker_services.step_locks [OF services [OF assms(1)] assms(2,3)] unfolding thread_event_def .

text \<open>What the proofs below use of it.\<close>

lemma locks_facts:
  assumes "i < length ts" and "message_step h (fst (ts ! i)) (snd (ts ! i)) p w = (p', w')" and "p \<noteq> AtEnd"
  shows "e \<noteq> ev i \<Longrightarrow> e \<in> locked w' \<longleftrightarrow> e \<in> locked w"
    and "owner_pc p' \<Longrightarrow> (owner_pc p \<Longrightarrow> ev i \<in> locked w) \<Longrightarrow> ev i \<in> locked w'"
    and "owner_pc p' \<Longrightarrow> owner_pc p \<and> p \<noteq> AtMark \<or> ev i \<notin> locked w"
    and "p' = AtMark \<Longrightarrow> owner_pc p"
    and "\<not> frees \<Longrightarrow> owner_pc p \<longrightarrow> p = AtMark \<Longrightarrow> ev i \<in> locked w \<Longrightarrow> ev i \<in> locked w'"
  using goroutine_locks [OF assms] by (elim disjE; simp add: owner_pc_def)+

lemma exclusive_step:
  assumes "exclusive s" and "system_step h ts s s'"
  shows "exclusive s'"
  using assms(2)
proof (cases rule: system_step.cases)
  case (goroutine i p w)
  have n: "i < length ts" "length (sy_pcs s) = length ts" using assms(1) goroutine by (simp_all add: exclusive_def)
  note f = locks_facts [OF n(1) goroutine(4,3)]
  have held: "ev j \<in> locked (sy_world s)" if "j < length ts" "owner_pc (sy_pcs s ! j)" for j
    using assms(1) that unfolding exclusive_def by blast
  have uniq: "j = k" if "j < length ts" "k < length ts" "owner_pc (sy_pcs s ! j)" "owner_pc (sy_pcs s ! k)" "ev j = ev k" for j k
    using assms(1) that unfolding exclusive_def by blast
  have alone: "ev j \<noteq> ev i" if "j < length ts" "j \<noteq> i" "owner_pc (sy_pcs s ! j)" "owner_pc p" for j
    using f(3) [OF that(4)] held [OF that(1,3)] uniq [OF that(1) n(1) that(3)] that(2) by metis
  have kept: "ev j \<in> locked w" if "j < length ts" "owner_pc ((sy_pcs s)[i := p] ! j)" for j
  proof (cases "j = i")
    case True
    then show ?thesis using f(2) held [OF n(1)] that n by simp
  next
    case False
    then have j: "owner_pc (sy_pcs s ! j)" using that by simp
    show ?thesis
    proof (cases "ev j = ev i")
      case True
      then have "\<not> owner_pc (sy_pcs s ! i)" using uniq [OF that(1) n(1) j] False by blast
      moreover have "ev i \<in> locked (sy_world s)" using held [OF that(1) j] True by simp
      ultimately show ?thesis using goroutine_locks [OF n(1) goroutine(4,3)] True
        by (elim disjE; simp add: owner_pc_def)
    next
      case False
      then show ?thesis using f(1) held [OF that(1) j] by blast
    qed
  qed
  have "j = k" if "j < length ts" "k < length ts" "owner_pc ((sy_pcs s)[i := p] ! j)"
    "owner_pc ((sy_pcs s)[i := p] ! k)" "ev j = ev k" for j k
    using that alone [of j] alone [of k] uniq [of j k] n by (cases "j = i"; cases "k = i") auto
  with kept show ?thesis using n unfolding exclusive_def goroutine(1) by simp
qed

lemma run_once_step:
  assumes "exclusive s" and "run_once s" and "\<not> frees" and "system_step h ts s s'"
  shows "run_once s'"
  using assms(4)
proof (cases rule: system_step.cases)
  case (goroutine i p w)
  let ?q = "sy_pcs s ! i"
  have n: "i < length ts" "length (sy_pcs s) = length ts" using assms(1) goroutine by (simp_all add: exclusive_def)
  note f = locks_facts [OF n(1) goroutine(4,3)]
  have ran: "ev k \<in> locked (sy_world s)" "owner_pc (sy_pcs s ! j) \<Longrightarrow> ev j = ev k \<Longrightarrow> sy_pcs s ! j = AtMark"
    if "k \<in> set (sy_runs s)" "j < length ts" for j k
    using assms(2) that unfolding run_once_def by blast+
  have keep: "ev k \<in> locked w" if "k \<in> set (sy_runs s)" for k
    using f(1) f(5) [OF assms(3)] ran [OF that n(1)] by metis
  have here: "ev k \<noteq> ev i" if "k \<in> set (sy_runs s)" "owner_pc p" for k
    using f(3) [OF that(2)] ran [OF that(1) n(1)] by metis
  have new: "ev i \<in> locked w \<and> (\<forall>j < length ts. j \<noteq> i \<longrightarrow> owner_pc (sy_pcs s ! j) \<longrightarrow> ev j \<noteq> ev i)" if "p = AtMark"
    using f(2) f(4) [OF that] assms(1) n that unfolding exclusive_def by (metis owner_pc_def)
  have "distinct (map ev (if p = AtMark then sy_runs s @ [i] else sy_runs s))"
    using assms(2) here unfolding run_once_def owner_pc_def by (auto simp del: distinct_map dest: sym)
  moreover have "ev k \<in> locked w \<and> (\<forall>j < length ts. owner_pc ((sy_pcs s)[i := p] ! j) \<longrightarrow> ev j = ev k \<longrightarrow>
      (sy_pcs s)[i := p] ! j = AtMark)" if "k \<in> set (sy_runs s)" for k
    using keep [OF that] here [OF that] ran(2) [OF that] n by (auto simp: nth_list_update)
  moreover have "ev i \<in> locked w \<and> (\<forall>j < length ts. owner_pc ((sy_pcs s)[i := p] ! j) \<longrightarrow> ev j = ev i \<longrightarrow>
      (sy_pcs s)[i := p] ! j = AtMark)" if "p = AtMark"
    using new [OF that] that n by (auto simp: nth_list_update)
  ultimately show ?thesis unfolding run_once_def goroutine(1) by (cases "p = AtMark") auto
qed

lemma exclusive_start: "exclusive (start_system ts w)"
  by (auto simp: exclusive_def start_system_def owner_pc_def)

theorem mutual_exclusion:
  "system_reach h ts (start_system ts w) n s \<Longrightarrow> exclusive s"
  by (induction "start_system ts w" n s rule: system_reach.induct) (auto intro: exclusive_start exclusive_step)

theorem at_most_once:
  assumes "\<not> frees" and "system_reach h ts (start_system ts w) n s"
  shows "distinct (map ev (sy_runs s))"
proof -
  have "run_once s"
    using assms(2)
  proof (induction "start_system ts w" n s rule: system_reach.induct)
    case (reach_step n s' s'')
    then show ?case using run_once_step assms(1) mutual_exclusion by blast
  qed (simp add: run_once_def start_system_def)
  then show ?thesis by (simp add: run_once_def)
qed

end

section \<open>The window between check and claim\<close>

text \<open>
  Where completion frees the lock, a goroutine that saw the event unfinished can claim it
  after another one has completed it: the pipeline then runs twice.
\<close>

lemma reach_goroutine:
  assumes "system_reach h ts s0 n \<lparr>sy_pcs = ps, sy_world = w, sy_runs = rs\<rparr>" and "i < length ps" and "ps ! i \<noteq> AtEnd"
    and "message_step h (fst (ts ! i)) (snd (ts ! i)) (ps ! i) w = (p, w')"
  shows "system_reach h ts s0 (Suc n)
    \<lparr>sy_pcs = ps[i := p], sy_world = w', sy_runs = (if p = AtMark then rs @ [i] else rs)\<rparr>"
  using assms system_step.goroutine [of i "\<lparr>sy_pcs = ps, sy_world = w, sy_runs = rs\<rparr>" h ts p w']
  by (auto intro: reach_step)

context worker_services
begin

lemma step_moves:
  shows "event_id m \<notin> finished w \<Longrightarrow> \<exists>w'. message_step h wk m AtIsDone w = (AtClaim, w') \<and>
      locked w' = locked w \<and> finished w' = finished w"
    and "event_id m \<notin> locked w \<Longrightarrow> \<exists>w'. message_step h wk m AtClaim w = (AtProcess, w') \<and> locked w' = insert (event_id m) (locked w)"
    and "good (rm_Event m) \<Longrightarrow> \<exists>w'. message_step h wk m AtProcess w = (AtMark, w') \<and> locked w' = locked w"
    and "\<exists>w'. message_step h wk m AtMark w = (AtAck, w') \<and> locked w' = (if frees then locked w - {event_id m} else locked w)"
proof -
  show "\<exists>w'. message_step h wk m AtIsDone w = (AtClaim, w') \<and> locked w' = locked w \<and> finished w' = finished w"
    if "event_id m \<notin> finished w"
    using that query_law [of "event_id m" w] by (auto simp: message_step_def uses_store)
  show "\<exists>w'. message_step h wk m AtClaim w = (AtProcess, w') \<and> locked w' = insert (event_id m) (locked w)"
    if "event_id m \<notin> locked w"
    using that claim_law [OF lock_ttl, of "event_id m" w] by (auto simp: message_step_def uses_store)
  obtain r w1 where r: "ProcessSingleEvent h wk (rm_Event m) w = (r, w1)" by force
  show "\<exists>w'. message_step h wk m AtProcess w = (AtMark, w') \<and> locked w' = locked w" if "good (rm_Event m)"
    using that r pipeline_law [OF r] by (cases r) (auto simp: message_step_def)
  show "\<exists>w'. message_step h wk m AtMark w = (AtAck, w') \<and> locked w' = (if frees then locked w - {event_id m} else locked w)"
    using done_law [OF done_ttl, of "event_id m" w] by (auto simp: message_step_def mark_done_def uses_store)
qed

text \<open>Two goroutines with the same event: the first claims it while the second waits to.\<close>

lemma first_claims:
  assumes "event_id m \<notin> locked w" and "event_id m \<notin> finished w"
  shows "\<exists>w'. system_reach h [(wk, m), (wk, m)] (start_system [(wk, m), (wk, m)] w) 3
    \<lparr>sy_pcs = [AtProcess, AtClaim], sy_world = w', sy_runs = []\<rparr>"
proof -
  let ?ts = "[(wk, m), (wk, m)]"
  obtain w1 where w1: "message_step h wk m AtIsDone w = (AtClaim, w1)" "locked w1 = locked w" "finished w1 = finished w"
    using step_moves(1) assms(2) by blast
  obtain w2 where w2: "message_step h wk m AtIsDone w1 = (AtClaim, w2)" "locked w2 = locked w"
    using step_moves(1) [of m w1] w1 assms(2) by auto
  obtain w3 where w3: "message_step h wk m AtClaim w2 = (AtProcess, w3)" using step_moves(2) [of m w2] w2 assms(1) by auto
  have r: "system_reach h ?ts (start_system ?ts w) 0 \<lparr>sy_pcs = [AtIsDone, AtIsDone], sy_world = w, sy_runs = []\<rparr>"
    using reach_start [of h ?ts "start_system ?ts w"] by (simp add: start_system_def)
  note r = reach_goroutine [OF r, of 0, simplified, OF w1(1), simplified]
  note r = reach_goroutine [OF r, of 1, simplified, OF w2(1), simplified]
  note r = reach_goroutine [OF r, of 0, simplified, OF w3, simplified]
  then show ?thesis by (auto simp: numeral_3_eq_3)
qed

theorem double_run:
  assumes "frees" and "good (rm_Event m)" and "event_id m \<notin> locked w" and "event_id m \<notin> finished w"
  shows "\<exists>n s. system_reach h [(wk, m), (wk, m)] (start_system [(wk, m), (wk, m)] w) n s \<and> sy_runs s = [0, 1]"
proof -
  let ?ts = "[(wk, m), (wk, m)]" and ?e = "event_id m"
  obtain w1 where w1: "message_step h wk m AtIsDone w = (AtClaim, w1)" "locked w1 = locked w" "finished w1 = finished w"
    using step_moves(1) assms(4) by blast
  obtain w2 where w2: "message_step h wk m AtIsDone w1 = (AtClaim, w2)" "locked w2 = locked w"
    using step_moves(1) [of m w1] w1 assms(4) by auto
  obtain w3 where w3: "message_step h wk m AtClaim w2 = (AtProcess, w3)" using step_moves(2) [of m w2] w2 assms(3) by auto
  obtain w4 where w4: "message_step h wk m AtProcess w3 = (AtMark, w4)" using step_moves(3) assms(2) by blast
  obtain w5 where w5: "message_step h wk m AtMark w4 = (AtAck, w5)" "?e \<notin> locked w5"
    using step_moves(4) [of m w4] assms(1) by auto
  obtain w6 where w6: "message_step h wk m AtClaim w5 = (AtProcess, w6)" using step_moves(2) [of m w5] w5 by auto
  obtain w7 where w7: "message_step h wk m AtProcess w6 = (AtMark, w7)" using step_moves(3) assms(2) by blast
  have r: "system_reach h ?ts (start_system ?ts w) 0 \<lparr>sy_pcs = [AtIsDone, AtIsDone], sy_world = w, sy_runs = []\<rparr>"
    using reach_start [of h ?ts "start_system ?ts w"] by (simp add: start_system_def)
  note r = reach_goroutine [OF r, of 0, simplified, OF w1(1), simplified]
  note r = reach_goroutine [OF r, of 1, simplified, OF w2(1), simplified]
  note r = reach_goroutine [OF r, of 0, simplified, OF w3, simplified]
  note r = reach_goroutine [OF r, of 0, simplified, OF w4, simplified]
  note r = reach_goroutine [OF r, of 0, simplified, OF w5(1), simplified]
  note r = reach_goroutine [OF r, of 1, simplified, OF w6, simplified]
  note r = reach_goroutine [OF r, of 1, simplified, OF w7, simplified]
  then show ?thesis by (intro exI conjI) (assumption, simp)
qed

end

end
