(* ===== verification/Worker_Pool.thy ===== *)
theory Worker_Pool
  imports Worker_Concurrency
begin

text \<open>
  \<open>processMessages\<close> of \<open>worker.go\<close> for \<open>concurrency > 1\<close>: the dispatching loop with its
  semaphore channel and wait group, and the goroutines it starts, as a step relation.
  \<open>ctx\<close> may be cancelled at any moment when \<open>may_cancel\<close> holds.
\<close>

section \<open>Pool\<close>

text \<open>A goroutine: in the handler, past the receive from \<open>sem\<close>, or past \<open>wg.Done\<close>.\<close>

datatype goroutine = Busy pc | Received | Exited

text \<open>The dispatcher: at the check of \<open>ctx.Err()\<close>, at the select, at the spawn, at \<open>wg.Wait\<close>.\<close>

datatype dispatcher = AtCheck | AtSelect | AtSpawn | AtWait | Returned

record 'w pool =
  po_todo :: "RawMessage list"
  po_gos :: "(RawMessage \<times> goroutine) list"
  po_sem :: nat
  po_wg :: nat
  po_main :: dispatcher
  po_cancelled :: bool
  po_world :: 'w

definition start_pool :: "RawMessage list \<Rightarrow> 'w \<Rightarrow> 'w pool" where
  "start_pool msgs w =
     \<lparr>po_todo = msgs, po_gos = [], po_sem = 0, po_wg = 0, po_main = AtCheck, po_cancelled = False, po_world = w\<rparr>"

inductive pool_step :: "'w host \<Rightarrow> 'w Worker \<Rightarrow> bool \<Rightarrow> 'w pool \<Rightarrow> 'w pool \<Rightarrow> bool" for h wk may_cancel where
  cancel: "may_cancel \<Longrightarrow> \<not> po_cancelled s \<Longrightarrow> pool_step h wk may_cancel s (s\<lparr>po_cancelled := True\<rparr>)"
| check_end: "po_main s = AtCheck \<Longrightarrow> po_todo s = [] \<Longrightarrow> pool_step h wk may_cancel s (s\<lparr>po_main := AtWait\<rparr>)"
| check_stop: "po_main s = AtCheck \<Longrightarrow> po_todo s \<noteq> [] \<Longrightarrow> po_cancelled s \<Longrightarrow>
    pool_step h wk may_cancel s (s\<lparr>po_main := AtWait\<rparr>)"
| check_go: "po_main s = AtCheck \<Longrightarrow> po_todo s \<noteq> [] \<Longrightarrow> \<not> po_cancelled s \<Longrightarrow>
    pool_step h wk may_cancel s (s\<lparr>po_main := AtSelect\<rparr>)"
| select_token: "po_main s = AtSelect \<Longrightarrow> int (po_sem s) < w_concurrency wk \<Longrightarrow>
    pool_step h wk may_cancel s (s\<lparr>po_main := AtSpawn, po_sem := Suc (po_sem s)\<rparr>)"
| select_done: "po_main s = AtSelect \<Longrightarrow> po_cancelled s \<Longrightarrow>
    pool_step h wk may_cancel s (s\<lparr>po_main := AtSpawn\<rparr>)"
| spawn: "po_main s = AtSpawn \<Longrightarrow> po_todo s = m # ms \<Longrightarrow>
    pool_step h wk may_cancel s
      (s\<lparr>po_main := AtCheck, po_todo := ms, po_wg := Suc (po_wg s), po_gos := po_gos s @ [(m, Busy AtIsDone)]\<rparr>)"
| run: "i < length (po_gos s) \<Longrightarrow> po_gos s ! i = (m, Busy p) \<Longrightarrow> p \<noteq> AtEnd \<Longrightarrow>
    message_step h wk m p (po_world s) = (p', w') \<Longrightarrow>
    pool_step h wk may_cancel s (s\<lparr>po_gos := (po_gos s)[i := (m, Busy p')], po_world := w'\<rparr>)"
| receive: "i < length (po_gos s) \<Longrightarrow> po_gos s ! i = (m, Busy AtEnd) \<Longrightarrow> 0 < po_sem s \<Longrightarrow>
    pool_step h wk may_cancel s (s\<lparr>po_gos := (po_gos s)[i := (m, Received)], po_sem := po_sem s - 1\<rparr>)"
| wg_done: "i < length (po_gos s) \<Longrightarrow> po_gos s ! i = (m, Received) \<Longrightarrow>
    pool_step h wk may_cancel s (s\<lparr>po_gos := (po_gos s)[i := (m, Exited)], po_wg := po_wg s - 1\<rparr>)"
| wait_done: "po_main s = AtWait \<Longrightarrow> po_wg s = 0 \<Longrightarrow> pool_step h wk may_cancel s (s\<lparr>po_main := Returned\<rparr>)"

inductive_cases pool_stepE: "pool_step h wk mc s s'"

inductive pool_reach :: "'w host \<Rightarrow> 'w Worker \<Rightarrow> bool \<Rightarrow> 'w pool \<Rightarrow> nat \<Rightarrow> 'w pool \<Rightarrow> bool" for h wk may_cancel where
  pool_refl: "pool_reach h wk may_cancel s 0 s"
| pool_next: "pool_reach h wk may_cancel s n s' \<Longrightarrow> pool_step h wk may_cancel s' s'' \<Longrightarrow>
    pool_reach h wk may_cancel s (Suc n) s''"

section \<open>Invariant\<close>

definition active :: "'w pool \<Rightarrow> nat" where
  "active s = length (filter (\<lambda>(m, g). \<exists>p. g = Busy p) (po_gos s))"

definition unfinished :: "'w pool \<Rightarrow> nat" where
  "unfinished s = length (filter (\<lambda>(m, g). g \<noteq> Exited) (po_gos s))"

text \<open>
  The wait group counts the goroutines that have not exited, and no message is lost between
  the loop and the goroutines.
\<close>

definition pool_inv :: "RawMessage list \<Rightarrow> 'w pool \<Rightarrow> bool" where
  "pool_inv msgs s \<longleftrightarrow> po_wg s = unfinished s \<and> map fst (po_gos s) @ po_todo s = msgs \<and>
     (po_main s = AtSelect \<or> po_main s = AtSpawn \<longrightarrow> po_todo s \<noteq> []) \<and> (po_main s = Returned \<longrightarrow> po_wg s = 0)"

text \<open>Without cancellation every goroutine in the handler holds one slot of the semaphore.\<close>

definition slots_inv :: "'w Worker \<Rightarrow> 'w pool \<Rightarrow> bool" where
  "slots_inv wk s \<longleftrightarrow> \<not> po_cancelled s \<and> po_sem s = active s + (if po_main s = AtSpawn then 1 else 0) \<and>
     int (po_sem s) \<le> w_concurrency wk \<and> (po_main s = AtWait \<or> po_main s = Returned \<longrightarrow> po_todo s = [])"

lemma filter_update_length:
  assumes "i < length xs"
  shows "length (filter P (xs[i := y])) + (if P (xs ! i) then 1 else 0) = length (filter P xs) + (if P y then 1 else 0)"
  using assms
proof (induction xs arbitrary: i)
  case (Cons x xs)
  show ?case
  proof (cases i)
    case (Suc k)
    then show ?thesis using Cons.IH [of k] Cons.prems by simp
  qed simp
qed simp

lemma active_update:
  "i < length (po_gos s) \<Longrightarrow> po_gos s' = (po_gos s)[i := (m, g)] \<Longrightarrow> po_gos s ! i = (m, g0) \<Longrightarrow>
     active s' + (if \<exists>p. g0 = Busy p then 1 else 0) = active s + (if \<exists>p. g = Busy p then 1 else 0)"
  using filter_update_length [of i "po_gos s" "\<lambda>(m, g). \<exists>p. g = Busy p" "(m, g)"] by (simp add: active_def)

lemma unfinished_update:
  "i < length (po_gos s) \<Longrightarrow> po_gos s' = (po_gos s)[i := (m, g)] \<Longrightarrow> po_gos s ! i = (m, g0) \<Longrightarrow>
     unfinished s' + (if g0 \<noteq> Exited then 1 else 0) = unfinished s + (if g \<noteq> Exited then 1 else 0)"
  using filter_update_length [of i "po_gos s" "\<lambda>(m, g). g \<noteq> Exited" "(m, g)"] by (simp add: unfinished_def)

lemma map_fst_update: "i < length xs \<Longrightarrow> xs ! i = (m, g) \<Longrightarrow> map fst (xs[i := (m, g')]) = map fst xs"
  by (metis fst_conv list_update_id map_update)

lemma pool_inv_step:
  assumes "pool_inv msgs s" and "pool_step h wk mc s s'"
  shows "pool_inv msgs s'"
  using assms(2)
proof (cases rule: pool_step.cases)
  case (run i m p p' w')
  then show ?thesis using assms(1) unfinished_update [of i s s' m "Busy p'" "Busy p"]
    by (auto simp: pool_inv_def map_fst_update)
next
  case (receive i m)
  then show ?thesis using assms(1) unfinished_update [of i s s' m Received "Busy AtEnd"]
    by (auto simp: pool_inv_def map_fst_update)
next
  case (wg_done i m)
  then show ?thesis using assms(1) unfinished_update [of i s s' m Exited Received]
    by (auto simp: pool_inv_def map_fst_update)
qed (use assms(1) in \<open>auto simp: pool_inv_def unfinished_def\<close>)

lemma slots_inv_step:
  assumes "slots_inv wk s" and "pool_step h wk False s s'"
  shows "slots_inv wk s'"
  using assms(2)
proof (cases rule: pool_step.cases)
  case (run i m p p' w')
  then show ?thesis using assms(1) active_update [of i s s' m "Busy p'" "Busy p"] by (simp add: slots_inv_def)
next
  case (receive i m)
  then show ?thesis using assms(1) active_update [of i s s' m Received "Busy AtEnd"] by (auto simp: slots_inv_def)
next
  case (wg_done i m)
  then show ?thesis using assms(1) active_update [of i s s' m Exited Received] by (simp add: slots_inv_def)
qed (use assms(1) in \<open>auto simp: slots_inv_def active_def\<close>)

lemma pool_reach_inv: "pool_reach h wk mc (start_pool msgs w) n s \<Longrightarrow> pool_inv msgs s"
proof (induction "start_pool msgs w" n s rule: pool_reach.induct)
  case pool_refl
  show ?case by (simp add: pool_inv_def start_pool_def unfinished_def)
next
  case (pool_next n s' s'')
  then show ?case using pool_inv_step by blast
qed

lemma pool_reach_slots:
  "pool_reach h wk False (start_pool msgs w) n s \<Longrightarrow> 0 \<le> w_concurrency wk \<Longrightarrow> slots_inv wk s"
proof (induction "start_pool msgs w" n s rule: pool_reach.induct)
  case pool_refl
  then show ?case by (simp add: slots_inv_def start_pool_def active_def)
next
  case (pool_next n s' s'')
  then show ?case using slots_inv_step by blast
qed

section \<open>Completion\<close>

fun go_left :: "goroutine \<Rightarrow> nat" where
  "go_left (Busy p) = steps_left p + 2"
| "go_left Received = 1"
| "go_left Exited = 0"

fun main_left :: "dispatcher \<Rightarrow> nat" where
  "main_left AtCheck = 2"
| "main_left AtSelect = 12"
| "main_left AtSpawn = 11"
| "main_left AtWait = 1"
| "main_left Returned = 0"

text \<open>
  Steps left: eleven for each message still to dispatch (three of the dispatcher, eight of the
  goroutine), those of the goroutines, the dispatcher's own, and the cancellation.
\<close>

definition pool_left :: "'w pool \<Rightarrow> nat" where
  "pool_left s =
     11 * (length (po_todo s) - (if po_main s = AtSelect \<or> po_main s = AtSpawn then 1 else 0)) +
     sum_list (map (go_left \<circ> snd) (po_gos s)) + main_left (po_main s) + (if po_cancelled s then 0 else 1)"

lemma go_update_left:
  "i < length gs \<Longrightarrow> gs ! i = (m, g0) \<Longrightarrow> go_left g < go_left g0 \<Longrightarrow>
     sum_list (map (go_left \<circ> snd) (gs[i := (m, g)])) < sum_list (map (go_left \<circ> snd) gs)"
  by (rule sum_list_update_less) simp_all

lemma pool_step_decreases:
  assumes "pool_inv msgs s" and "pool_step h wk mc s s'"
  shows "pool_left s' < pool_left s"
  using assms(2)
proof (cases rule: pool_step.cases)
  case (run i m p p' w')
  then show ?thesis using go_update_left [of i "po_gos s" m "Busy p" "Busy p'"] message_step_decreases [OF run(4,5)]
    by (simp add: pool_left_def)
next
  case (receive i m)
  then show ?thesis using go_update_left [of i "po_gos s" m "Busy AtEnd" Received] by (simp add: pool_left_def)
next
  case (wg_done i m)
  then show ?thesis using go_update_left [of i "po_gos s" m Received Exited] by (simp add: pool_left_def)
qed (use assms(1) in \<open>auto simp: pool_left_def pool_inv_def neq_Nil_conv\<close>)

lemma pool_reach_bound:
  "pool_reach h wk mc (start_pool msgs w) n s \<Longrightarrow> n + pool_left s \<le> 11 * length msgs + 3"
proof (induction "start_pool msgs w" n s rule: pool_reach.induct)
  case (pool_next n s' s'')
  then show ?case using pool_step_decreases [OF pool_reach_inv] by fastforce
qed (simp add: start_pool_def pool_left_def)

lemma busy_exists: "active s > 0 \<Longrightarrow> \<exists>i m p. i < length (po_gos s) \<and> po_gos s ! i = (m, Busy p)"
  by (auto simp: active_def filter_empty_conv in_set_conv_nth) metis

lemma unfinished_exists: "unfinished s > 0 \<Longrightarrow> \<exists>i m g. i < length (po_gos s) \<and> po_gos s ! i = (m, g) \<and> g \<noteq> Exited"
  by (auto simp: unfinished_def filter_empty_conv in_set_conv_nth) metis

text \<open>A goroutine can always move while the slots are in order.\<close>

lemma go_moves:
  assumes "slots_inv wk s" and "i < length (po_gos s)" and "po_gos s ! i = (m, g)" and "g \<noteq> Exited"
  shows "\<exists>s'. pool_step h wk False s s'"
proof (cases g)
  case (Busy p)
  show ?thesis
  proof (cases "p = AtEnd")
    case True
    have "(m, g) \<in> set (po_gos s)" using assms by (metis nth_mem)
    then have "0 < active s" using Busy by (auto simp: active_def filter_empty_conv)
    then have "0 < po_sem s" using assms(1) by (simp add: slots_inv_def)
    then show ?thesis using receive assms Busy True by blast
  next
    case False
    then show ?thesis using run [of i s m p] assms Busy by (metis surj_pair)
  qed
next
  case Received
  then show ?thesis using wg_done assms by blast
qed (use assms in simp)

lemma pool_progress:
  assumes "pool_inv msgs s" and "slots_inv wk s" and "0 < w_concurrency wk" and "po_main s \<noteq> Returned"
  shows "\<exists>s'. pool_step h wk False s s'"
proof (cases "po_main s")
  case AtCheck
  then show ?thesis using check_end check_go assms(2) unfolding slots_inv_def by metis
next
  case AtSelect
  show ?thesis
  proof (cases "int (po_sem s) < w_concurrency wk")
    case True
    then show ?thesis using select_token AtSelect by blast
  next
    case False
    then have "0 < active s" using AtSelect assms(2,3) by (simp add: slots_inv_def)
    then show ?thesis using busy_exists go_moves [OF assms(2)] by blast
  qed
next
  case AtSpawn
  then show ?thesis using spawn assms(1) unfolding pool_inv_def by (metis neq_Nil_conv)
next
  case AtWait
  show ?thesis
  proof (cases "po_wg s = 0")
    case True
    then show ?thesis using wait_done AtWait by blast
  next
    case False
    then have "0 < unfinished s" using assms(1) by (simp add: pool_inv_def)
    then show ?thesis using unfinished_exists go_moves [OF assms(2)] by blast
  qed
qed (use assms in simp)

text \<open>A pool that has returned has run every message to the end.\<close>

lemma pool_complete:
  assumes "pool_inv msgs s" and "slots_inv wk s" and "po_main s = Returned"
  shows "po_gos s = map (\<lambda>m. (m, Exited)) msgs"
proof -
  have t: "po_todo s = []" and u: "unfinished s = 0" and f: "map fst (po_gos s) = msgs"
    using assms by (auto simp: pool_inv_def slots_inv_def)
  have "\<forall>x \<in> set (po_gos s). snd x = Exited" using u by (auto simp: unfinished_def filter_empty_conv)
  then have "po_gos s = map (\<lambda>m. (m, Exited)) (map fst (po_gos s))"
    by (simp add: comp_def) (metis (no_types, lifting) map_idI prod.collapse)
  then show ?thesis using f by simp
qed

section \<open>Cancellation\<close>

text \<open>
  The \<open>break\<close> in the select leaves the select and not the loop: a goroutine is started
  without a slot, its receive from \<open>sem\<close> blocks, and \<open>wg.Wait\<close> never returns.
\<close>

definition slotless :: "RawMessage \<Rightarrow> pc \<Rightarrow> 'w \<Rightarrow> 'w pool" where
  "slotless m p w =
     \<lparr>po_todo = [], po_gos = [(m, Busy p)], po_sem = 0, po_wg = 1, po_main = AtWait, po_cancelled = True, po_world = w\<rparr>"

lemma slotless_runs:
  "pool_reach h wk mc s n (slotless m p w) \<Longrightarrow> \<exists>n' w'. pool_reach h wk mc s n' (slotless m AtEnd w')"
proof (induction "steps_left p" arbitrary: n p w rule: less_induct)
  case less
  show ?case
  proof (cases "p = AtEnd")
    case False
    obtain p' w' where st: "message_step h wk m p w = (p', w')" by force
    have "pool_step h wk mc (slotless m p w) (slotless m p' w')"
      using pool_step.run [of 0 "slotless m p w" m p h wk p' w' mc] False st by (simp add: slotless_def)
    then have "pool_reach h wk mc s (Suc n) (slotless m p' w')" using less.prems by (blast intro: pool_next)
    then show ?thesis using less.hyps [OF message_step_decreases [OF False st]] by blast
  qed (use less.prems in blast)
qed

lemma slotless_stuck: "\<not> pool_step h wk mc (slotless m AtEnd w) s'"
proof
  assume "pool_step h wk mc (slotless m AtEnd w) s'"
  then show False by (cases rule: pool_step.cases) (simp_all add: slotless_def)
qed

lemma slotless_reached: "\<exists>n. pool_reach h wk True (start_pool [m] w) n (slotless m AtIsDone w)"
proof -
  let ?s1 = "(start_pool [m] w)\<lparr>po_main := AtSelect\<rparr>"
  let ?s2 = "?s1\<lparr>po_cancelled := True\<rparr>"
  let ?s3 = "?s2\<lparr>po_main := AtSpawn\<rparr>"
  let ?s4 = "?s3\<lparr>po_main := AtCheck, po_todo := [], po_wg := Suc (po_wg ?s3), po_gos := po_gos ?s3 @ [(m, Busy AtIsDone)]\<rparr>"
  have "pool_step h wk True (start_pool [m] w) ?s1" by (rule check_go) (simp_all add: start_pool_def)
  then have "pool_reach h wk True (start_pool [m] w) 1 ?s1" using pool_next [OF pool_refl] by simp
  moreover have "pool_step h wk True ?s1 ?s2" by (rule cancel) (simp_all add: start_pool_def)
  moreover have "pool_step h wk True ?s2 ?s3" by (rule select_done) (simp_all add: start_pool_def)
  moreover have "pool_step h wk True ?s3 ?s4" by (rule spawn) (simp_all add: start_pool_def)
  moreover have "pool_step h wk True ?s4 (?s4\<lparr>po_main := AtWait\<rparr>)" by (rule check_end) (simp_all add: start_pool_def)
  moreover have "?s4\<lparr>po_main := AtWait\<rparr> = slotless m AtIsDone w" by (simp add: start_pool_def slotless_def)
  ultimately show ?thesis by (metis pool_next)
qed

lemma cancelled_pool_blocks:
  "\<exists>n s. pool_reach h wk True (start_pool [m] w) n s \<and> po_main s = AtWait \<and> (\<nexists>s'. pool_step h wk True s s')"
proof -
  obtain n' w' where "pool_reach h wk True (start_pool [m] w) n' (slotless m AtEnd w')"
    using slotless_reached slotless_runs by metis
  moreover have "po_main (slotless m AtEnd w') = AtWait" by (simp add: slotless_def)
  moreover have "\<nexists>s'. pool_step h wk True (slotless m AtEnd w') s'" by (simp add: slotless_stuck)
  ultimately show ?thesis by blast
qed

end
