(* ===== verification/Csv_Parser.thy ===== *)
theory Csv_Parser
  imports Parsing Go_Csv
begin

text \<open>\<open>internal/parsing/parsers/csv.go\<close>: header and first data row to a parsed event.\<close>

section \<open>Parser\<close>

text \<open>\<open>colMap\<close>: the trimmed cells of the row by trimmed lower-case column name.\<close>

fun build_col_map :: "unicode \<Rightarrow> string list \<Rightarrow> string list \<Rightarrow> (string \<rightharpoonup> string) \<Rightarrow> (string \<rightharpoonup> string)" where
  "build_col_map uc (col # cols) (cell # cells) m =
     build_col_map uc cols cells (m(to_lower uc (trim_space col) \<mapsto> trim_space cell))"
| "build_col_map uc _ _ m = m"

definition csv_port :: "(string \<rightharpoonup> string) \<Rightarrow> string \<Rightarrow> int option" where
  "csv_port colMap k = (case colMap k of
       Some s \<Rightarrow> if s \<noteq> [] then atoi s else None
     | None \<Rightarrow> None)"

definition csv_identifier :: "RawEvent \<Rightarrow> (string \<rightharpoonup> string) \<Rightarrow> string" where
  "csv_identifier raw colMap =
     (let i = (case colMap ''source'' of Some s \<Rightarrow> if s \<noteq> [] then s else re_Source raw
               | None \<Rightarrow> re_Source raw)
      in or_default i ''csv-source'')"

definition csv_event :: "unicode \<Rightarrow> clock_readings \<Rightarrow> RawEvent \<Rightarrow> (string \<rightharpoonup> string) \<Rightarrow> ParsedEvent" where
  "csv_event uc now raw colMap =
     (let ts = or_default (get_or_zero colMap ''timestamp'') (format_rfc3339 (now 0));
          action = or_default (to_lower uc (get_or_zero colMap ''action'')) ''unknown'';
          protocol = or_default (to_upper uc (get_or_zero colMap ''protocol'')) ''unknown'';
          category = or_default (get_or_zero colMap ''category'') ''network'';
          severity = or_default (get_or_zero colMap ''severity'')
                       (if action = ''deny'' then ''high'' else ''info'');
          netInfo = \<lparr>ni_SrcIP = get_or_zero colMap ''src_ip'', ni_SrcPort = csv_port colMap ''src_port'',
                     ni_DstIP = get_or_zero colMap ''dst_ip'', ni_DstPort = csv_port colMap ''dst_port'',
                     ni_Protocol = protocol\<rparr>;
          user = (case colMap ''username'' of
                    Some u \<Rightarrow> if u \<noteq> [] then \<lparr>ui_Username = Some u\<rparr> else \<lparr>ui_Username = None\<rparr>
                  | None \<Rightarrow> \<lparr>ui_Username = None\<rparr>)
      in \<lparr>pe_Timestamp = ts,
          pe_Source = \<lparr>si_Type = ''firewall'', si_Vendor = ''generic'', si_Product = ''csv-firewall'',
                       si_Identifier = csv_identifier raw colMap\<rparr>,
          pe_Event = \<lparr>ei_Category = category, ei_Action = action, ei_Severity = severity\<rparr>,
          pe_Network = Some netInfo, pe_User = Some user\<rparr>)"

definition CSVParse :: "platform \<Rightarrow> clock_readings \<Rightarrow> RawEvent \<Rightarrow> ParsedEvent option result" where
  "CSVParse pf now raw =
     (let trimmed = trim_space (re_Payload raw) in
      if trimmed = [] then Inl (Errorf ''empty CSV payload'')
      else (case csv_read_all trimmed of
              Inl err \<Rightarrow> Inl (Wrap ''invalid CSV format'' err)
            | Inr (header # row # _) \<Rightarrow>
                if length header \<noteq> length row then
                  Inl (Errorf (''header column count ('' @ itoa (int (length header)) @
                    '') does not match data row column count ('' @ itoa (int (length row)) @ '')''))
                else Inr (Some (csv_event (tables pf) now raw
                       (build_col_map (tables pf) header row Map.empty)))
            | Inr _ \<Rightarrow> Inl (Errorf ''CSV must contain at least a header row and one data row'')))"

definition CSVParser :: "platform \<Rightarrow> Parser" where
  "CSVParser pf = \<lparr>Format = ''csv'', Parse = CSVParse pf\<rparr>"

section \<open>Contract\<close>

lemma csv_event_complete: "complete_parsed (csv_event uc now raw m)"
  by (simp add: csv_event_def Let_def complete_parsed_def csv_identifier_def or_default_nonempty
      format_rfc3339_nonempty)

lemma csv_event_ports: "int64_ports (csv_event uc now raw m)"
  by (auto simp: csv_event_def Let_def int64_ports_def csv_port_def dest: atoi_range
      split: option.splits if_splits)

interpretation csv: format_parser "CSVParser pf" "''csv''" for pf
proof
  show "\<exists>e. Parse (CSVParser pf) now raw = Inl e" if "trim_space (re_Payload raw) = []" for raw now
    using that by (simp add: CSVParser_def CSVParse_def)
  show "\<exists>e. r = Some e \<and> complete_parsed e \<and> int64_ports e" if "Parse (CSVParser pf) now raw = Inr r" for now raw r
    using that csv_event_complete csv_event_ports
    by (auto simp: CSVParser_def CSVParse_def Let_def split: if_splits sum.splits list.splits)
qed (simp_all add: CSVParser_def format_names_clean [simplified])

text \<open>The column-count check never fires: the reader has already rejected such input.\<close>

lemma CSVParse_no_count_error:
  "csv_read_all s = Inr (header # row # rest) \<Longrightarrow> length header = length row"
  by (rule csv_read_all_uniform) auto

lemma CSVParse_errors:
  assumes "CSVParse pf now raw = Inl er"
  shows "er = Errorf ''empty CSV payload'' \<or> er = Errorf ''CSV must contain at least a header row and one data row'' \<or>
    (\<exists>x. er = Wrap ''invalid CSV format'' x)"
  using assms CSVParse_no_count_error [of "trim_space (re_Payload raw)"]
  by (auto simp: CSVParse_def Let_def split: if_splits sum.splits list.splits)

section \<open>Columns\<close>

text \<open>The column map as an association list: of several columns of one name the last counts.\<close>

lemma build_col_map_map_of:
  "build_col_map uc header row m = m ++ map_of (rev (zip (map (\<lambda>c. to_lower uc (trim_space c)) header) (map trim_space row)))"
proof (induction header row arbitrary: m rule: list_induct2')
  case (4 x xs y ys)
  have "m(to_lower uc (trim_space x) \<mapsto> trim_space y) = m ++ [to_lower uc (trim_space x) \<mapsto> trim_space y]" by simp
  then show ?case by (simp add: 4 del: map_add_upd map_add_empty)
qed simp_all

end
