(* ===== verification/Json_Parser.thy ===== *)
theory Json_Parser
  imports Parsing
begin

text \<open>\<open>internal/parsing/parsers/json.go\<close>: a JSON object, flat or nested, to a parsed event.\<close>

section \<open>Schema of the accepted logs\<close>

text \<open>The anonymous structs of \<open>jsonLogSchema\<close>, from the inside out.\<close>

record json_endpoint =
  je_IP :: string
  je_Port :: any

record json_source =
  js_Identifier :: string
  js_Vendor :: string
  js_Product :: string
  js_Type :: string

record json_firewall =
  jf_Action :: string
  jf_Protocol :: string
  jf_Category :: string
  jf_Severity :: string

record json_network =
  jn_Protocol :: string
  jn_SrcIP :: string
  jn_SrcPort :: any
  jn_DstIP :: string
  jn_DstPort :: any
  jn_Source :: "json_endpoint option"
  jn_Destination :: "json_endpoint option"

record json_user =
  ju_Username :: "string option"

record jsonLogSchema =
  jl_Timestamp :: string
  jl_Source :: "json_source option"
  jl_Firewall :: "json_firewall option"
  jl_Network :: "json_network option"
  jl_User :: "json_user option"
  jl_Action :: string
  jl_Protocol :: string
  jl_Category :: string
  jl_Severity :: string
  jl_SrcIP :: string
  jl_SrcPort :: any
  jl_DstIP :: string
  jl_DstPort :: any
  jl_SourceIP :: string
  jl_DestinationIP :: string
  jl_SourcePort :: any
  jl_DestinationPort :: any

section \<open>Decoding\<close>

definition zero_endpoint :: json_endpoint where
  "zero_endpoint = \<lparr>je_IP = [], je_Port = ANil\<rparr>"

definition zero_source :: json_source where
  "zero_source = \<lparr>js_Identifier = [], js_Vendor = [], js_Product = [], js_Type = []\<rparr>"

definition zero_firewall :: json_firewall where
  "zero_firewall = \<lparr>jf_Action = [], jf_Protocol = [], jf_Category = [], jf_Severity = []\<rparr>"

definition zero_network :: json_network where
  "zero_network = \<lparr>jn_Protocol = [], jn_SrcIP = [], jn_SrcPort = ANil, jn_DstIP = [], jn_DstPort = ANil,
     jn_Source = None, jn_Destination = None\<rparr>"

definition zero_schema :: jsonLogSchema where
  "zero_schema = \<lparr>jl_Timestamp = [], jl_Source = None, jl_Firewall = None, jl_Network = None, jl_User = None,
     jl_Action = [], jl_Protocol = [], jl_Category = [], jl_Severity = [], jl_SrcIP = [], jl_SrcPort = ANil,
     jl_DstIP = [], jl_DstPort = ANil, jl_SourceIP = [], jl_DestinationIP = [], jl_SourcePort = ANil,
     jl_DestinationPort = ANil\<rparr>"

definition set_endpoint_field :: "string \<Rightarrow> json \<Rightarrow> json_endpoint \<Rightarrow> json_endpoint result" where
  "set_endpoint_field n v e =
     (if n = ''ip'' then store (\<lambda>x. e\<lparr>je_IP := x\<rparr>) (dec_string v (je_IP e))
      else store (\<lambda>x. e\<lparr>je_Port := x\<rparr>) (dec_any v))"

definition set_source_field :: "string \<Rightarrow> json \<Rightarrow> json_source \<Rightarrow> json_source result" where
  "set_source_field n v s =
     (if n = ''identifier'' then store (\<lambda>x. s\<lparr>js_Identifier := x\<rparr>) (dec_string v (js_Identifier s))
      else if n = ''vendor'' then store (\<lambda>x. s\<lparr>js_Vendor := x\<rparr>) (dec_string v (js_Vendor s))
      else if n = ''product'' then store (\<lambda>x. s\<lparr>js_Product := x\<rparr>) (dec_string v (js_Product s))
      else store (\<lambda>x. s\<lparr>js_Type := x\<rparr>) (dec_string v (js_Type s)))"

definition set_firewall_field :: "string \<Rightarrow> json \<Rightarrow> json_firewall \<Rightarrow> json_firewall result" where
  "set_firewall_field n v f =
     (if n = ''action'' then store (\<lambda>x. f\<lparr>jf_Action := x\<rparr>) (dec_string v (jf_Action f))
      else if n = ''protocol'' then store (\<lambda>x. f\<lparr>jf_Protocol := x\<rparr>) (dec_string v (jf_Protocol f))
      else if n = ''category'' then store (\<lambda>x. f\<lparr>jf_Category := x\<rparr>) (dec_string v (jf_Category f))
      else store (\<lambda>x. f\<lparr>jf_Severity := x\<rparr>) (dec_string v (jf_Severity f)))"

definition dec_endpoint_ptr :: "json \<Rightarrow> json_endpoint option \<Rightarrow> json_endpoint option result" where
  "dec_endpoint_ptr = dec_struct_ptr [''ip'', ''port''] set_endpoint_field zero_endpoint"

definition set_network_field :: "string \<Rightarrow> json \<Rightarrow> json_network \<Rightarrow> json_network result" where
  "set_network_field f v n =
     (if f = ''protocol'' then store (\<lambda>x. n\<lparr>jn_Protocol := x\<rparr>) (dec_string v (jn_Protocol n))
      else if f = ''src_ip'' then store (\<lambda>x. n\<lparr>jn_SrcIP := x\<rparr>) (dec_string v (jn_SrcIP n))
      else if f = ''src_port'' then store (\<lambda>x. n\<lparr>jn_SrcPort := x\<rparr>) (dec_any v)
      else if f = ''dst_ip'' then store (\<lambda>x. n\<lparr>jn_DstIP := x\<rparr>) (dec_string v (jn_DstIP n))
      else if f = ''dst_port'' then store (\<lambda>x. n\<lparr>jn_DstPort := x\<rparr>) (dec_any v)
      else if f = ''source'' then store (\<lambda>x. n\<lparr>jn_Source := x\<rparr>) (dec_endpoint_ptr v (jn_Source n))
      else store (\<lambda>x. n\<lparr>jn_Destination := x\<rparr>) (dec_endpoint_ptr v (jn_Destination n)))"

definition set_user_field :: "string \<Rightarrow> json \<Rightarrow> json_user \<Rightarrow> json_user result" where
  "set_user_field f v u = store (\<lambda>x. u\<lparr>ju_Username := x\<rparr>) (dec_string_ptr v)"

definition schema_fields :: "string list" where
  "schema_fields =
     [''timestamp'', ''source'', ''firewall'', ''network'', ''user'', ''action'', ''protocol'', ''category'',
      ''severity'', ''src_ip'', ''src_port'', ''dst_ip'', ''dst_port'', ''source_ip'', ''destination_ip'',
      ''source_port'', ''destination_port'']"

definition set_schema_field :: "string \<Rightarrow> json \<Rightarrow> jsonLogSchema \<Rightarrow> jsonLogSchema result" where
  "set_schema_field f v d =
     (if f = ''timestamp'' then store (\<lambda>x. d\<lparr>jl_Timestamp := x\<rparr>) (dec_string v (jl_Timestamp d))
      else if f = ''source'' then store (\<lambda>x. d\<lparr>jl_Source := x\<rparr>)
        (dec_struct_ptr [''identifier'', ''vendor'', ''product'', ''type''] set_source_field zero_source v (jl_Source d))
      else if f = ''firewall'' then store (\<lambda>x. d\<lparr>jl_Firewall := x\<rparr>)
        (dec_struct_ptr [''action'', ''protocol'', ''category'', ''severity''] set_firewall_field zero_firewall v (jl_Firewall d))
      else if f = ''network'' then store (\<lambda>x. d\<lparr>jl_Network := x\<rparr>)
        (dec_struct_ptr [''protocol'', ''src_ip'', ''src_port'', ''dst_ip'', ''dst_port'', ''source'', ''destination'']
           set_network_field zero_network v (jl_Network d))
      else if f = ''user'' then store (\<lambda>x. d\<lparr>jl_User := x\<rparr>)
        (dec_struct_ptr [''username''] set_user_field \<lparr>ju_Username = None\<rparr> v (jl_User d))
      else if f = ''action'' then store (\<lambda>x. d\<lparr>jl_Action := x\<rparr>) (dec_string v (jl_Action d))
      else if f = ''protocol'' then store (\<lambda>x. d\<lparr>jl_Protocol := x\<rparr>) (dec_string v (jl_Protocol d))
      else if f = ''category'' then store (\<lambda>x. d\<lparr>jl_Category := x\<rparr>) (dec_string v (jl_Category d))
      else if f = ''severity'' then store (\<lambda>x. d\<lparr>jl_Severity := x\<rparr>) (dec_string v (jl_Severity d))
      else if f = ''src_ip'' then store (\<lambda>x. d\<lparr>jl_SrcIP := x\<rparr>) (dec_string v (jl_SrcIP d))
      else if f = ''src_port'' then store (\<lambda>x. d\<lparr>jl_SrcPort := x\<rparr>) (dec_any v)
      else if f = ''dst_ip'' then store (\<lambda>x. d\<lparr>jl_DstIP := x\<rparr>) (dec_string v (jl_DstIP d))
      else if f = ''dst_port'' then store (\<lambda>x. d\<lparr>jl_DstPort := x\<rparr>) (dec_any v)
      else if f = ''source_ip'' then store (\<lambda>x. d\<lparr>jl_SourceIP := x\<rparr>) (dec_string v (jl_SourceIP d))
      else if f = ''destination_ip'' then store (\<lambda>x. d\<lparr>jl_DestinationIP := x\<rparr>) (dec_string v (jl_DestinationIP d))
      else if f = ''source_port'' then store (\<lambda>x. d\<lparr>jl_SourcePort := x\<rparr>) (dec_any v)
      else store (\<lambda>x. d\<lparr>jl_DestinationPort := x\<rparr>) (dec_any v))"

text \<open>\<open>json.Unmarshal([]byte(trimmed), &data)\<close>\<close>

definition dec_schema :: "string \<Rightarrow> jsonLogSchema result" where
  "dec_schema s = (case json_parse s of
       None \<Rightarrow> Inl JsonSyntax
     | Some v \<Rightarrow> dec_struct schema_fields set_schema_field v zero_schema)"

section \<open>Extraction\<close>

text \<open>
  \<open>parsePort\<close>; the cases \<open>int\<close> and \<open>json.Number\<close> of its type switch do not arise
  from \<open>Unmarshal\<close> into \<open>interface{}\<close>.
\<close>

definition parsePort :: "platform \<Rightarrow> any \<Rightarrow> int option" where
  "parsePort pf val = (case val of
       ANil \<Rightarrow> None
     | AFloat v \<Rightarrow> Some (float_to_int (oob_int pf) v)
     | AString s \<Rightarrow> atoi (trim_space s)
     | _ \<Rightarrow> None)"

text \<open>The idioms \<open>if s != "" { x = s }\<close> and \<open>if p := \<dots>; p != nil { x = p }\<close>.\<close>

definition override :: "string \<Rightarrow> string \<Rightarrow> string" where
  "override s x = (if s \<noteq> [] then s else x)"

definition override_port :: "int option \<Rightarrow> int option \<Rightarrow> int option" where
  "override_port p x = (case p of Some v \<Rightarrow> Some v | None \<Rightarrow> x)"

definition json_action :: "unicode \<Rightarrow> jsonLogSchema \<Rightarrow> string" where
  "json_action uc d =
     (let a = (case jl_Firewall d of
                 Some f \<Rightarrow> if jf_Action f \<noteq> [] then to_lower uc (jf_Action f) else ''unknown''
               | None \<Rightarrow> ''unknown'')
      in if jl_Action d \<noteq> [] then to_lower uc (jl_Action d) else a)"

definition json_category :: "jsonLogSchema \<Rightarrow> string" where
  "json_category d =
     override (jl_Category d) (case jl_Firewall d of Some f \<Rightarrow> override (jf_Category f) ''network'' | None \<Rightarrow> ''network'')"

definition json_severity :: "string \<Rightarrow> jsonLogSchema \<Rightarrow> string" where
  "json_severity action d =
     (let s = override (jl_Severity d) (case jl_Firewall d of Some f \<Rightarrow> override (jf_Severity f) ''info'' | None \<Rightarrow> ''info'')
      in if (action = ''deny'' \<or> action = ''block'' \<or> action = ''drop'') \<and>
            (case jl_Firewall d of None \<Rightarrow> True | Some f \<Rightarrow> jf_Severity f = []) \<and> jl_Severity d = []
         then ''high'' else s)"

definition json_protocol :: "unicode \<Rightarrow> jsonLogSchema \<Rightarrow> string" where
  "json_protocol uc d =
     (let p0 = (case jl_Firewall d of
                  Some f \<Rightarrow> if jf_Protocol f \<noteq> [] then to_upper uc (jf_Protocol f) else ''unknown''
                | None \<Rightarrow> ''unknown'');
          p1 = (if jl_Protocol d \<noteq> [] then to_upper uc (jl_Protocol d) else p0)
      in case jl_Network d of
           Some n \<Rightarrow> if jn_Protocol n \<noteq> [] then to_upper uc (jn_Protocol n) else p1
         | None \<Rightarrow> p1)"

definition json_source_info :: "RawEvent \<Rightarrow> jsonLogSchema \<Rightarrow> SourceInfo" where
  "json_source_info raw d =
     (let ident = or_default (re_Source raw) ''json-source'' in
      case jl_Source d of
        None \<Rightarrow> \<lparr>si_Type = ''firewall'', si_Vendor = ''generic'', si_Product = ''json-firewall'', si_Identifier = ident\<rparr>
      | Some s \<Rightarrow> \<lparr>si_Type = override (js_Type s) ''firewall'', si_Vendor = override (js_Vendor s) ''generic'',
                    si_Product = override (js_Product s) ''json-firewall'',
                    si_Identifier = override (js_Identifier s) ident\<rparr>)"

text \<open>
  One side of the connection: top-level fields, overridden by the flat fields of
  \<open>network\<close>, overridden by its nested \<open>source\<close> or \<open>destination\<close>.
\<close>

definition json_address ::
  "jsonLogSchema \<Rightarrow> string \<Rightarrow> string \<Rightarrow> (json_network \<Rightarrow> string) \<Rightarrow> (json_network \<Rightarrow> json_endpoint option) \<Rightarrow> string" where
  "json_address d toplevel alt flat nested =
     (let ip0 = override toplevel (override alt []) in
      case jl_Network d of
        None \<Rightarrow> ip0
      | Some n \<Rightarrow>
          (let ip1 = override (flat n) ip0 in
           case nested n of None \<Rightarrow> ip1 | Some e \<Rightarrow> override (je_IP e) ip1))"

definition json_port ::
  "platform \<Rightarrow> jsonLogSchema \<Rightarrow> any \<Rightarrow> any \<Rightarrow> (json_network \<Rightarrow> any) \<Rightarrow> (json_network \<Rightarrow> json_endpoint option) \<Rightarrow> int option" where
  "json_port pf d toplevel alt flat nested =
     (let p0 = override_port (parsePort pf toplevel) (parsePort pf alt) in
      case jl_Network d of
        None \<Rightarrow> p0
      | Some n \<Rightarrow>
          (let p1 = override_port (parsePort pf (flat n)) p0 in
           case nested n of None \<Rightarrow> p1 | Some e \<Rightarrow> override_port (parsePort pf (je_Port e)) p1))"

definition json_event :: "platform \<Rightarrow> clock_readings \<Rightarrow> RawEvent \<Rightarrow> jsonLogSchema \<Rightarrow> ParsedEvent" where
  "json_event pf now raw d =
     (let ts = or_default (jl_Timestamp d) (format_rfc3339 (now 0));
          action = json_action (tables pf) d;
          netInfo = \<lparr>ni_SrcIP = json_address d (jl_SrcIP d) (jl_SourceIP d) jn_SrcIP jn_Source,
                     ni_SrcPort = json_port pf d (jl_SrcPort d) (jl_SourcePort d) jn_SrcPort jn_Source,
                     ni_DstIP = json_address d (jl_DstIP d) (jl_DestinationIP d) jn_DstIP jn_Destination,
                     ni_DstPort = json_port pf d (jl_DstPort d) (jl_DestinationPort d) jn_DstPort jn_Destination,
                     ni_Protocol = json_protocol (tables pf) d\<rparr>;
          user = (case jl_User d of Some u \<Rightarrow> \<lparr>ui_Username = ju_Username u\<rparr> | None \<Rightarrow> \<lparr>ui_Username = None\<rparr>)
      in \<lparr>pe_Timestamp = ts, pe_Source = json_source_info raw d,
          pe_Event = \<lparr>ei_Category = json_category d, ei_Action = action, ei_Severity = json_severity action d\<rparr>,
          pe_Network = Some netInfo, pe_User = Some user\<rparr>)"

definition JSONParse :: "platform \<Rightarrow> clock_readings \<Rightarrow> RawEvent \<Rightarrow> ParsedEvent option result" where
  "JSONParse pf now raw =
     (let trimmed = trim_space (re_Payload raw) in
      if trimmed = [] then Inl (Errorf ''empty JSON payload'')
      else (case dec_schema trimmed of
              Inl err \<Rightarrow> Inl (Wrap ''failed to unmarshal JSON'' err)
            | Inr d \<Rightarrow> Inr (Some (json_event pf now raw d))))"

definition JSONParser :: "platform \<Rightarrow> Parser" where
  "JSONParser pf = \<lparr>Format = ''json'', Parse = JSONParse pf\<rparr>"

section \<open>Contract\<close>

lemma parsePort_range: "parsePort pf v = Some p \<Longrightarrow> in_int64 p"
  by (auto simp: parsePort_def in_int64_float_to_int dest: atoi_range split: any.splits)

lemma json_port_range: "json_port pf d a b f g = Some p \<Longrightarrow> in_int64 p"
  by (auto simp: json_port_def override_port_def Let_def dest: parsePort_range split: option.splits)

lemma override_nonempty: "x \<noteq> [] \<Longrightarrow> override s x \<noteq> []"
  by (simp add: override_def)

lemma json_text_nonempty:
  "json_action uc d \<noteq> []" "json_category d \<noteq> []" "json_severity a d \<noteq> []" "json_protocol uc d \<noteq> []"
  by (auto simp: json_action_def json_category_def json_severity_def json_protocol_def Let_def
      override_def split: option.splits)

lemma json_source_nonempty:
  "si_Type (json_source_info raw d) \<noteq> []" "si_Vendor (json_source_info raw d) \<noteq> []"
  "si_Product (json_source_info raw d) \<noteq> []" "si_Identifier (json_source_info raw d) \<noteq> []"
  by (auto simp: json_source_info_def or_default_def override_def Let_def split: option.splits)

lemma json_event_contract:
  "complete_parsed (json_event pf now raw d)" "int64_ports (json_event pf now raw d)"
  by (simp add: complete_parsed_def json_event_def Let_def json_text_nonempty json_source_nonempty
      or_default_nonempty format_rfc3339_nonempty)
    (auto simp: int64_ports_def json_event_def Let_def dest: json_port_range)

interpretation json: format_parser "JSONParser pf" "''json''" for pf
proof
  show "\<exists>e. Parse (JSONParser pf) now raw = Inl e" if "trim_space (re_Payload raw) = []" for raw now
    using that by (simp add: JSONParser_def JSONParse_def)
  show "\<exists>e. r = Some e \<and> complete_parsed e \<and> int64_ports e" if "Parse (JSONParser pf) now raw = Inr r" for now raw r
    using that json_event_contract
    by (auto simp: JSONParser_def JSONParse_def Let_def split: if_splits sum.splits)
qed (simp_all add: JSONParser_def format_names_clean [simplified])

section \<open>Ports\<close>

lemma trim_space_itoa [simp]: "trim_space (itoa n) = itoa n"
proof (rule trim_space_ascii)
  have i: "is_ascii c \<and> \<not> ascii_space c" if "c \<in> set (itoa n)" for c
    using itoa_chars [OF that] by (auto simp: ascii_space_def is_digit_def)
  show ne: "itoa n \<noteq> []" using itoa_hd [of n] by auto
  show "is_ascii (hd (itoa n))" "is_ascii (last (itoa n))" "\<not> ascii_space (hd (itoa n))" "\<not> ascii_space (last (itoa n))"
    using i [OF hd_in_set [OF ne]] i [OF last_in_set [OF ne]] by simp_all
qed

lemma parsePort_string: "in_int64 n \<Longrightarrow> parsePort pf (AString (itoa n)) = Some n"
  by (simp add: parsePort_def atoi_itoa)

lemma parsePort_number:
  assumes "\<bar>n\<bar> < 2 ^ 53"
  shows "\<exists>v. dec_any (JNum (itoa n)) = Inr v \<and> parsePort pf v = Some n"
proof -
  have i: "in_int64 n" using assms by (auto simp: in_int64_def)
  then have "parse_float64 (itoa n) = Some (of_int n)" using parse_float64_itoa [OF i] assms by auto
  moreover have "Go_Decode.truncate (of_int n) = n" by (simp add: Go_Decode.truncate_def)
  ultimately show ?thesis using i by (simp add: parsePort_def float_to_int_def)
qed

text \<open>A JSON array is not a log object.\<close>

lemma JSONParse_array:
  assumes "json_parse (trim_space (re_Payload raw)) = Some (JArr vs)"
  shows "is_err (JSONParse pf now raw)"
  using assms by (simp add: JSONParse_def dec_schema_def dec_struct_def Let_def)

end
