(* ===== verification/Go_Time_Laws.thy ===== *)
theory Go_Time_Laws
  imports Go_Time
begin

text \<open>
  Laws of the time functions: the calendar conversion is inverted by its counterpart, and what
  \<open>Format\<close> prints is what \<open>Parse\<close> reads, for years of four digits.
\<close>

section \<open>Texts\<close>

text \<open>The time of day, as both layouts print it.\<close>

definition clock_text :: "int \<Rightarrow> string" where
  "clock_text s = pad2 (s div 3600) @ '':'' @ pad2 (s div 60 mod 60) @ '':'' @ pad2 (s mod 60)"

text \<open>The stamp of a BSD syslog line with a two-digit day.\<close>

definition bsd_stamp :: "instant \<Rightarrow> string" where
  "bsd_stamp t = (case civil_of_days (t div 86400) of (y, m, d) \<Rightarrow>
     short_months ! nat (m - 1) @ '' '' @ pad2 d @ '' '' @ clock_text (t mod 86400))"

section \<open>Calendar\<close>

lemma civil_parts:
  assumes "civil_of_days z = (y, m, d)"
  obtains era c q a doy mp where
    "z = era * 146097 + 36524 * c + 1461 * q + 365 * a + doy - 719468"
    "0 \<le> c" "c \<le> 3" "0 \<le> q" "q \<le> 24" "0 \<le> a" "a \<le> 3" "0 \<le> doy" "doy \<le> 365"
    "doy = 365 \<longrightarrow> a = 3 \<and> (q = 24 \<longrightarrow> c = 3)"
    "mp = (5 * doy + 2) div 153" "d = doy - (153 * mp + 2) div 5 + 1"
    "m = (if mp < 10 then mp + 3 else mp - 9)"
    "y = (if m \<le> 2 then 1 else 0) + era * 400 + 100 * c + 4 * q + a"
proof -
  define era where "era = (z + 719468) div 146097"
  define doe where "doe = (z + 719468) mod 146097"
  define c where "c = min 3 (doe div 36524)"
  define r where "r = doe - 36524 * c"
  define q where "q = r div 1461"
  define s where "s = r mod 1461"
  define a where "a = min 3 (s div 365)"
  define doy where "doy = s - 365 * a"
  have doe: "0 \<le> doe" "doe \<le> 146096" by (simp_all add: doe_def)
  have c: "0 \<le> c" "c \<le> 3" "0 \<le> r" "r \<le> 36524" "r = 36524 \<longrightarrow> c = 3"
    using doe unfolding r_def c_def by (auto simp: min_def)
  have q: "0 \<le> q" "q \<le> 24" "0 \<le> s" "s \<le> 1460" "r = 1461 * q + s"
    using c unfolding q_def s_def by auto
  have a: "0 \<le> a" "a \<le> 3" "0 \<le> doy" "doy \<le> 365" "doy = 365 \<longrightarrow> a = 3"
    using q unfolding a_def doy_def by (auto simp: min_def)
  have "doy = 365 \<longrightarrow> q = 24 \<longrightarrow> c = 3" using c q a unfolding doy_def by auto
  moreover have "z = era * 146097 + 36524 * c + 1461 * q + 365 * a + doy - 719468"
    using q(5) div_mult_mod_eq [of "z + 719468" 146097] unfolding doy_def r_def doe_def era_def by linarith
  moreover have "d = doy - (153 * ((5 * doy + 2) div 153) + 2) div 5 + 1"
    "m = (if (5 * doy + 2) div 153 < 10 then (5 * doy + 2) div 153 + 3 else (5 * doy + 2) div 153 - 9)"
    "y = (if m \<le> 2 then 1 else 0) + era * 400 + 100 * c + 4 * q + a"
    using assms [unfolded civil_of_days_def Let_def, folded era_def doe_def, folded c_def, folded r_def,
        folded q_def s_def, folded a_def, folded doy_def] by auto
  ultimately show thesis using that [of era c q a doy "(5 * doy + 2) div 153"] c q a by blast
qed

lemma month_of_day:
  fixes doy :: int
  assumes "0 \<le> doy" "doy \<le> 365" "mp = (5 * doy + 2) div 153"
  shows "0 \<le> mp" "mp \<le> 11" "(153 * mp + 2) div 5 \<le> doy" "doy < (153 * (mp + 1) + 2) div 5"
  using assms by auto

lemma civil_valid:
  assumes "civil_of_days z = (y, m, d)"
  shows "1 \<le> m \<and> m \<le> 12 \<and> 1 \<le> d \<and> d \<le> days_in m y \<and> days_of_civil y m d = z"
proof -
  obtain era c q a doy mp where z: "z = era * 146097 + 36524 * c + 1461 * q + 365 * a + doy - 719468"
    and b: "0 \<le> c" "c \<le> 3" "0 \<le> q" "q \<le> 24" "0 \<le> a" "a \<le> 3" "0 \<le> doy" "doy \<le> 365"
      "doy = 365 \<longrightarrow> a = 3 \<and> (q = 24 \<longrightarrow> c = 3)"
    and mp: "mp = (5 * doy + 2) div 153" and d: "d = doy - (153 * mp + 2) div 5 + 1"
    and m: "m = (if mp < 10 then mp + 3 else mp - 9)"
    and y: "y = (if m \<le> 2 then 1 else 0) + era * 400 + 100 * c + 4 * q + a"
    using civil_parts [OF assms] by blast
  note md = month_of_day [OF b(7,8) mp]
  define yoe where "yoe = 100 * c + 4 * q + a"
  have yoe: "0 \<le> yoe" "yoe < 400" "yoe div 4 = 25 * c + q" "yoe div 100 = c"
    using b unfolding yoe_def by auto
  have y': "(if m \<le> 2 then y - 1 else y) = era * 400 + yoe" by (simp add: y yoe_def)
  have "(m + 9) mod 12 = mp" using md by (auto simp: m)
  moreover have "(era * 400 + yoe) div 400 = era" "(era * 400 + yoe) mod 400 = yoe" using yoe by auto
  ultimately have "days_of_civil y m d = z"
    using yoe(3,4) by (simp add: days_of_civil_def y' Let_def z d yoe_def)
  moreover have "1 \<le> m" "m \<le> 12" "1 \<le> d" using md by (auto simp: m d)
  moreover have "d \<le> days_in m y"
  proof -
    have leap: "is_leap y" if "doy = 365"
    proof -
      have "mp = 11" using that mp by simp
      then have "y = era * 400 + 100 * c + 4 * (q + 1)" using that b by (simp add: y m)
      then have e: "y = 4 * (100 * era + 25 * c + q + 1)" "y = 100 * (4 * era + c) + 4 * (q + 1)" by simp_all
      have "y mod 4 = 0" unfolding e(1) by simp
      moreover have "y mod 100 \<noteq> 0" if "q \<noteq> 24"
      proof -
        have "y mod 100 = (4 * (q + 1)) mod 100" unfolding e(2) by (simp only: mod_mult_self4)
        also have "\<dots> = 4 * (q + 1)" using that b by (intro mod_pos_pos_trivial) auto
        finally have "y mod 100 = 4 * (q + 1)" .
        then show ?thesis using b by simp
      qed
      moreover have "y mod 400 = 0" if "q = 24" "c = 3"
      proof -
        have "y = 400 * (era + 1)" using e(1) that by simp
        then show ?thesis by simp
      qed
      ultimately show ?thesis using that b(9) unfolding is_leap_def by (cases "q = 24") simp_all
    qed
    have "mp = 0 \<or> mp = 1 \<or> mp = 2 \<or> mp = 3 \<or> mp = 4 \<or> mp = 5 \<or> mp = 6 \<or> mp = 7 \<or> mp = 8 \<or> mp = 9 \<or>
      mp = 10 \<or> mp = 11" using md(1,2) by presburger
    moreover have "\<not> is_leap y \<longrightarrow> doy \<le> 364" using leap b(8) by force
    ultimately show ?thesis using md(4) b(8) by (elim disjE; simp add: days_in_def m d)
  qed
  ultimately show ?thesis by blast
qed

section \<open>Digits\<close>

lemma digit_char: "0 \<le> k \<Longrightarrow> k \<le> 9 \<Longrightarrow> is_digit (char_of (48 + k)) \<and> digit_val (char_of (48 + k)) = (k :: int)"
  by (simp add: is_digit_def digit_val_def)

lemma getnum_pad2: "0 \<le> n \<Longrightarrow> n \<le> 99 \<Longrightarrow> getnum b (pad2 n @ s) = Some (n, s)"
  using digit_char [of "n div 10"] digit_char [of "n mod 10"] by (simp add: getnum_def pad2_def)

lemma four_digits:
  assumes "1000 \<le> n" and "n \<le> 9999"
  shows "length (nat_digits n) = 4"
proof -
  have "\<not> n div 10 < 10" "\<not> n div 100 < 10" "n div 1000 < 10" using assms by auto
  then show ?thesis using assms
    by (simp add: nat_digits.simps [of n] nat_digits.simps [of "n div 10"] nat_digits.simps [of "n div 100"]
        nat_digits.simps [of "n div 1000"] zdiv_zmult2_eq [symmetric])
qed

lemma year_text:
  assumes "1000 \<le> n" and "n \<le> 9999"
  shows "pad4 n = itoa n" and "long_year (itoa n @ s) = Some (n, s)"
  using assms nat_digits_correct [of n] four_digits [OF assms]
  by (simp_all add: pad4_def Let_def itoa_def long_year_def)

section \<open>Round trips\<close>

lemma clock_fields:
  assumes "0 \<le> h" "h \<le> 23" "0 \<le> m" "m \<le> 59" "0 \<le> x" "x \<le> 59" and "r = [] \<or> r = ''Z''"
  shows "clock (pad2 h @ '':'' @ pad2 m @ '':'' @ pad2 x @ r) = Some (h * 3600 + m * 60 + x, r)"
proof -
  have "seconds (pad2 x @ r) = Some (x, r)"
    using getnum_pad2 [of x True r] assms by (auto simp: seconds_def in_range_def)
  then show ?thesis
    using getnum_pad2 [of h False] getnum_pad2 [of m True] assms
    by (simp add: clock_def in_range_def skip_char_def)
qed

lemma clock_clock_text:
  assumes "0 \<le> s" and "s < 86400" and "r = [] \<or> r = ''Z''"
  shows "clock (clock_text s @ r) = Some (s, r)"
proof -
  have b: "0 \<le> s div 3600" "s div 3600 \<le> 23" "0 \<le> s div 60 mod 60" "s div 60 mod 60 \<le> 59" "0 \<le> s mod 60" "s mod 60 \<le> 59"
    using assms by auto
  have "s div 3600 = s div 60 div 60" by (simp add: zdiv_zmult2_eq [symmetric])
  then have "s div 3600 * 3600 + s div 60 mod 60 * 60 + s mod 60 = s"
    using div_mult_mod_eq [of "s div 60" 60] div_mult_mod_eq [of s 60] by linarith
  then show ?thesis using clock_fields [OF b assms(3)] by (simp only: clock_text_def append_assoc)
qed

lemma format_clock_text:
  "format_rfc3339 t = (case civil_of_days (t div 86400) of (y, m, d) \<Rightarrow>
     pad4 y @ ''-'' @ pad2 m @ ''-'' @ pad2 d @ ''T'' @ clock_text (t mod 86400) @ ''Z'')"
  by (simp add: format_rfc3339_def clock_text_def Let_def split: prod.split)

lemma parse_format_rfc3339:
  assumes "1000 \<le> year_of t" and "year_of t \<le> 9999"
  shows "parse_rfc3339 (format_rfc3339 t) = Some t"
proof -
  obtain y m d where c: "civil_of_days (t div 86400) = (y, m, d)" by (metis prod_cases3)
  note v = civil_valid [OF c]
  have y: "1000 \<le> y" "y \<le> 9999" using assms c by (simp_all add: year_of_def)
  have d: "d \<le> 99" using v by (auto simp: days_in_def split: if_splits)
  have "t div 86400 * 86400 + t mod 86400 = t" by simp
  then show ?thesis
    using v d year_text(2) [OF y] getnum_pad2 [of m True] getnum_pad2 [of d True] clock_clock_text [of "t mod 86400" "''Z''"]
    by (simp add: format_clock_text c year_text(1) [OF y] parse_rfc3339_def skip_char_def in_range_def zone_def instant_of_def)
qed

lemma lookup_month_name:
  assumes "1 \<le> m" and "m \<le> 12"
  shows "lookup_month 1 short_months (short_months ! nat (m - 1) @ s) = Some (m, s)"
proof -
  have "m = 1 \<or> m = 2 \<or> m = 3 \<or> m = 4 \<or> m = 5 \<or> m = 6 \<or> m = 7 \<or> m = 8 \<or> m = 9 \<or> m = 10 \<or> m = 11 \<or> m = 12"
    using assms by presburger
  then show ?thesis by (elim disjE; simp add: short_months_def ascii_lower_def)
qed

lemma month_names:
  assumes "1 \<le> m" and "m \<le> 12"
  shows "\<exists>c cs. short_months ! nat (m - 1) = c # cs \<and> \<not> is_digit c \<and> c \<noteq> CHR '' ''"
proof -
  have "m = 1 \<or> m = 2 \<or> m = 3 \<or> m = 4 \<or> m = 5 \<or> m = 6 \<or> m = 7 \<or> m = 8 \<or> m = 9 \<or> m = 10 \<or> m = 11 \<or> m = 12"
    using assms by presburger
  then show ?thesis by (elim disjE; simp add: short_months_def is_digit_def)
qed

lemma skip_one_space: "s = [] \<or> hd s \<noteq> CHR '' '' \<Longrightarrow> skip_space (CHR '' '' # s) = Some s"
  by (cases s) (simp_all add: skip_space_def)

lemma pad2_no_space:
  assumes "0 \<le> n" and "n \<le> 99"
  shows "hd (pad2 n @ s) \<noteq> CHR '' ''"
proof -
  have "is_digit (char_of (48 + n div 10))" using digit_char [of "n div 10"] assms by auto
  moreover have "\<not> is_digit (CHR '' '')" by (simp add: is_digit_def)
  ultimately show ?thesis unfolding pad2_def append_Cons list.sel(1) by metis
qed

lemma bsd_stamp_not_rfc3339: "parse_rfc3339 (bsd_stamp t) = None"
proof -
  obtain y m d where c: "civil_of_days (t div 86400) = (y, m, d)" by (metis prod_cases3)
  obtain x xs where "short_months ! nat (m - 1) = x # xs" "\<not> is_digit x" using month_names civil_valid [OF c] by blast
  then show ?thesis by (simp add: bsd_stamp_def c parse_rfc3339_def long_year_def)
qed

lemma parse_bsd_stamp:
  assumes "1000 \<le> year_of t" and "year_of t \<le> 9999"
  shows "parse_year_stamp (itoa (year_of t) @ '' '' @ bsd_stamp t) = Some t"
proof -
  obtain y m d where c: "civil_of_days (t div 86400) = (y, m, d)" by (metis prod_cases3)
  note v = civil_valid [OF c]
  have y: "1000 \<le> y" "y \<le> 9999" using assms c by (simp_all add: year_of_def)
  have d: "0 \<le> d" "d \<le> 99" using v by (auto simp: days_in_def split: if_splits)
  let ?k = "clock_text (t mod 86400)"
  have k: "hd ?k \<noteq> CHR '' ''" using pad2_no_space [of "t mod 86400 div 3600"] by (simp add: clock_text_def)
  obtain x xs where n: "short_months ! nat (m - 1) = x # xs" "x \<noteq> CHR '' ''" using month_names v by blast
  have "t div 86400 * 86400 + t mod 86400 = t" by simp
  then show ?thesis
    using v d year_text(2) [OF y] getnum_pad2 [of d True] clock_clock_text [of "t mod 86400" "[]"]
      skip_one_space [of "short_months ! nat (m - 1) @ '' '' @ pad2 d @ '' '' @ ?k"]
      skip_one_space [of "pad2 d @ '' '' @ ?k"] pad2_no_space [OF d] skip_one_space [of ?k] k
      lookup_month_name [of m] n
    by (simp add: bsd_stamp_def c year_of_def parse_year_stamp_def instant_of_def)
qed

end
