(* ===== verification/Syslog_Parser.thy ===== *)
theory Syslog_Parser
  imports Parsing Go_Regexp Go_Time_Laws
begin

text \<open>\<open>internal/parsing/parsers/syslog.go\<close>: header and key-value pairs to a parsed event.\<close>

section \<open>Addresses\<close>

text \<open>\<open>net.SplitHostPort\<close>; \<open>None\<close> is an error.\<close>

definition split_host_port :: "string \<Rightarrow> (string \<times> string) option" where
  "split_host_port s =
     (let port = rev (takeWhile (\<lambda>c. c \<noteq> CHR '':'') (rev s));
          host = take (length s - length port - 1) s
      in if CHR '':'' \<notin> set s then None
         else (case s of
           [] \<Rightarrow> None
         | c # t \<Rightarrow>
             if c = CHR ''['' then
               (case dropWhile (\<lambda>x. x \<noteq> CHR '']'') t of
                  [] \<Rightarrow> None
                | _ # u \<Rightarrow>
                    if u = CHR '':'' # port \<and> CHR ''['' \<notin> set t \<and> CHR '']'' \<notin> set u
                    then Some (takeWhile (\<lambda>x. x \<noteq> CHR '']'') t, port) else None)
             else if CHR '':'' \<in> set host \<or> CHR ''['' \<in> set s \<or> CHR '']'' \<in> set s then None
             else Some (host, port)))"

definition splitIPAndPort :: "string \<Rightarrow> string \<times> int option" where
  "splitIPAndPort val =
     (if contains '':'' val then
        (case split_host_port val of
           Some (host, portStr) \<Rightarrow>
             (case atoi portStr of Some port \<Rightarrow> (host, Some port) | None \<Rightarrow> (val, None))
         | None \<Rightarrow> (val, None))
      else (val, None))"

section \<open>Timestamps\<close>

definition parseSyslogTimestamp :: "clock_readings \<Rightarrow> string \<Rightarrow> string" where
  "parseSyslogTimestamp now raw =
     (if raw = [] then format_rfc3339 (now 0)
      else (case parse_rfc3339 raw of
              Some t \<Rightarrow> format_rfc3339 t
            | None \<Rightarrow>
                (let refYear = year_of (now 0);
                     fullStr = itoa refYear @ '' '' @ raw
                 in case parse_year_stamp fullStr of
                      Some t \<Rightarrow> format_rfc3339 t
                    | None \<Rightarrow> format_rfc3339 (now 1))))"

section \<open>Parser\<close>

text \<open>\<open>^(?:<\d+>)?([A-Z][a-z]{2}\s+\d+\s+\d{2}:\d{2}:\d{2})\s+(\S+)\s+(.*)$\<close>\<close>

definition syslogHeaderRegex :: rx where
  "syslogHeaderRegex = Cat
     [Begin, Opt (Cat [Word ''<'', Plus Digit, Word ''>'']),
      Cap (Cat [One Upper, Times 2 Lower, Plus Space, Plus Digit, Plus Space,
                Times 2 Digit, Word '':'', Times 2 Digit, Word '':'', Times 2 Digit]),
      Plus Space, Cap (Plus NonSpace), Plus Space, Cap (Star NotNewline), End]"

text \<open>\<open>(?i)\b([A-Z_]+)=([^\s]+)\<close>\<close>

definition kvRegex :: rx where
  "kvRegex = Cat [WordBoundary, Cap (Plus FoldName), Word ''='', Cap (Plus NonSpace)]"

definition split_header :: "RawEvent \<Rightarrow> string \<Rightarrow> string \<times> string \<times> string" where
  "split_header raw trimmed = (case find_submatch syslogHeaderRegex trimmed of
       Some [ts, host, body] \<Rightarrow> (ts, host, body)
     | _ \<Rightarrow> ([], if re_Source raw = [] then ''unknown-host'' else re_Source raw, trimmed))"

fun collect_kv :: "unicode \<Rightarrow> string list list \<Rightarrow> (string \<rightharpoonup> string) \<Rightarrow> (string \<rightharpoonup> string)" where
  "collect_kv uc ([k, v] # ms) m = collect_kv uc ms (m(to_upper uc k \<mapsto> v))"
| "collect_kv uc (_ # ms) m = collect_kv uc ms m"
| "collect_kv uc [] m = m"

text \<open>The token loop: the last action word and the last protocol word win.\<close>

fun scan_tokens :: "unicode \<Rightarrow> string list \<Rightarrow> string \<times> string \<Rightarrow> string \<times> string" where
  "scan_tokens uc [] ap = ap"
| "scan_tokens uc (tok # toks) (action, protocol) =
     (let t = to_upper uc tok in
      if t = ''DENY'' \<or> t = ''DROP'' \<or> t = ''BLOCK'' then scan_tokens uc toks (''deny'', protocol)
      else if t = ''ALLOW'' \<or> t = ''ACCEPT'' \<or> t = ''PERMIT'' then scan_tokens uc toks (''allow'', protocol)
      else if t = ''TCP'' \<or> t = ''UDP'' \<or> t = ''ICMP'' then scan_tokens uc toks (action, t)
      else scan_tokens uc toks (action, protocol))"

text \<open>An address from \<open>SRC\<close>/\<open>DST\<close>, its port overridden by a numeric \<open>SPT\<close>/\<open>DPT\<close>.\<close>

definition endpoint :: "(string \<rightharpoonup> string) \<Rightarrow> string \<Rightarrow> string \<Rightarrow> string \<times> int option" where
  "endpoint kv addr_key port_key =
     (let (ip, port) = (case kv addr_key of Some a \<Rightarrow> splitIPAndPort a | None \<Rightarrow> ([], None));
          port' = (case kv port_key of
                     Some s \<Rightarrow> (case atoi s of Some p \<Rightarrow> Some p | None \<Rightarrow> port)
                   | None \<Rightarrow> port)
      in (ip, port'))"

definition syslog_event :: "unicode \<Rightarrow> clock_readings \<Rightarrow> RawEvent \<Rightarrow> string \<Rightarrow> ParsedEvent" where
  "syslog_event uc now raw trimmed =
     (let (timestampStr, host, body) = split_header raw trimmed;
          normalizedTime = parseSyslogTimestamp now timestampStr;
          kvMap = collect_kv uc (find_all_submatch kvRegex body) Map.empty;
          (action0, protocol0) = scan_tokens uc (split_words body) (''unknown'', ''unknown'');
          action = (case kvMap ''ACTION'' of Some act \<Rightarrow> to_lower uc act | None \<Rightarrow> action0);
          protocol = (case kvMap ''PROTO'' of Some proto \<Rightarrow> to_upper uc proto | None \<Rightarrow> protocol0);
          (srcIP, srcPort) = endpoint kvMap ''SRC'' ''SPT'';
          (dstIP, dstPort) = endpoint kvMap ''DST'' ''DPT'';
          severity = (if action = ''deny'' then ''high'' else ''info'');
          identifier = (if re_Source raw \<noteq> [] then re_Source raw else host)
      in \<lparr>pe_Timestamp = normalizedTime,
          pe_Source = \<lparr>si_Type = ''firewall'', si_Vendor = ''generic'',
                       si_Product = ''syslog-firewall'', si_Identifier = identifier\<rparr>,
          pe_Event = \<lparr>ei_Category = ''network'', ei_Action = action, ei_Severity = severity\<rparr>,
          pe_Network = Some \<lparr>ni_SrcIP = srcIP, ni_SrcPort = srcPort, ni_DstIP = dstIP,
                             ni_DstPort = dstPort, ni_Protocol = protocol\<rparr>,
          pe_User = Some \<lparr>ui_Username = None\<rparr>\<rparr>)"

definition SyslogParse :: "platform \<Rightarrow> clock_readings \<Rightarrow> RawEvent \<Rightarrow> ParsedEvent option result" where
  "SyslogParse pf now raw =
     (let trimmed = trim_space (re_Payload raw) in
      if trimmed = [] then Inl (Errorf ''empty syslog payload'')
      else Inr (Some (syslog_event (tables pf) now raw trimmed)))"

definition SyslogParser :: "platform \<Rightarrow> Parser" where
  "SyslogParser pf = \<lparr>Format = ''syslog'', Parse = SyslogParse pf\<rparr>"

section \<open>Contract\<close>

lemma rx_match_Word_caps: "p' \<in> set (rx_match (Word w) p) \<Longrightarrow> pos_caps p' = pos_caps p"
  by (rule rx_match_no_caps(1) [of "Word w"]) (simp_all add: Word_def list_all_iff)

text \<open>Every key-value match has a non-empty key and a non-empty value.\<close>

lemma kvRegex_captures:
  assumes "p \<in> set (rx_match kvRegex (b, s, []))"
  shows "\<exists>k v. k \<noteq> [] \<and> v \<noteq> [] \<and> pos_caps p = [k, v]"
proof -
  obtain p1 p2 p3 where m: "p1 \<in> set (rx_match WordBoundary (b, s, []))"
      "p2 \<in> set (rx_match (Cap (Plus FoldName)) p1)" "p3 \<in> set (rx_match (Word ''='') p2)"
      "p \<in> set (rx_match (Cap (Plus NonSpace)) p3)"
    using assms unfolding kvRegex_def rx_match.simps(3) [of "WordBoundary # _"]
    by (elim rx_match_seqE) blast
  have "pos_caps p1 = []"
    using rx_match_no_caps(1) [OF _ m(1)] by simp
  moreover obtain k where "k \<noteq> []" "pos_caps p2 = pos_caps p1 @ [k]"
    using rx_match_Cap_Plus [OF m(2)] by blast
  moreover obtain v where "v \<noteq> []" "pos_caps p = pos_caps p3 @ [v]"
    using rx_match_Cap_Plus [OF m(4)] by blast
  ultimately show ?thesis
    using rx_match_Word_caps [OF m(3)] by simp
qed

lemma collect_kv_nonempty:
  "\<forall>kv \<in> set ms. \<exists>k v. k \<noteq> [] \<and> v \<noteq> [] \<and> kv = [k, v] \<Longrightarrow> (\<And>k v. m k = Some v \<Longrightarrow> v \<noteq> []) \<Longrightarrow>
   collect_kv uc ms m k = Some v \<Longrightarrow> v \<noteq> []"
proof (induction uc ms m rule: collect_kv.induct)
  case (1 uc a v' ms m)
  have "x \<noteq> []" if "(m(to_upper uc a \<mapsto> v')) y = Some x" for y x
    using that 1(2,3) by (auto split: if_splits)
  moreover have "collect_kv uc ms (m(to_upper uc a \<mapsto> v')) k = Some v" using 1(4) by simp
  ultimately show ?case using 1(1,2) by (simp del: fun_upd_apply)
qed auto

lemma kv_map_nonempty:
  assumes "collect_kv uc (find_all_submatch kvRegex body) Map.empty k = Some v"
  shows "v \<noteq> []"
proof (rule collect_kv_nonempty [OF _ _ assms])
  show "\<forall>kv \<in> set (find_all_submatch kvRegex body). \<exists>k v. k \<noteq> [] \<and> v \<noteq> [] \<and> kv = [k, v]"
    using find_all_from_match kvRegex_captures unfolding find_all_submatch_def by metis
qed simp

lemma scan_tokens_nonempty:
  "fst ap \<noteq> [] \<Longrightarrow> snd ap \<noteq> [] \<Longrightarrow> fst (scan_tokens uc toks ap) \<noteq> [] \<and> snd (scan_tokens uc toks ap) \<noteq> []"
  by (induction uc toks ap rule: scan_tokens.induct) (auto simp: Let_def simp del: to_upper_eq_Nil)

lemma parseSyslogTimestamp_nonempty: "parseSyslogTimestamp now raw \<noteq> []"
  by (auto simp: parseSyslogTimestamp_def Let_def format_rfc3339_nonempty split: option.splits)

lemma splitIPAndPort_range: "splitIPAndPort a = (ip, Some p) \<Longrightarrow> in_int64 p"
  by (auto simp: splitIPAndPort_def dest: atoi_range split: if_splits option.splits)

lemma endpoint_range: "endpoint kv ak pk = (ip, Some p) \<Longrightarrow> in_int64 p"
  by (auto simp: endpoint_def Let_def dest: atoi_range splitIPAndPort_range
      split: option.splits prod.splits)

text \<open>The header match, if any, has three captures and a non-empty host.\<close>

lemma header_captures:
  assumes "p \<in> set (rx_match syslogHeaderRegex (b, s, []))"
  shows "\<exists>ts host body. host \<noteq> [] \<and> pos_caps p = [ts, host, body]"
proof -
  let ?ts = "Cat [One Upper, Times 2 Lower, Plus Space, Plus Digit, Plus Space,
                Times 2 Digit, Word '':'', Times 2 Digit, Word '':'', Times 2 Digit]"
  let ?pri = "Opt (Cat [Word ''<'', Plus Digit, Word ''>''])"
  have nc: "no_caps ?ts" "no_caps ?pri"
    by (simp_all add: Word_def Times_def list_all_iff numeral_2_eq_2)
  obtain p1 p2 p3 p4 p5 p6 p7 where m: "p1 \<in> set (rx_match Begin (b, s, []))" "p2 \<in> set (rx_match ?pri p1)"
      "p3 \<in> set (rx_match (Cap ?ts) p2)" "p4 \<in> set (rx_match (Plus Space) p3)"
      "p5 \<in> set (rx_match (Cap (Plus NonSpace)) p4)" "p6 \<in> set (rx_match (Plus Space) p5)"
      "p7 \<in> set (rx_match (Cap (Star NotNewline)) p6)" "p \<in> set (rx_match End p7)"
    using assms unfolding syslogHeaderRegex_def rx_match.simps(3) [of "Begin # _"]
    by (elim rx_match_seqE) blast
  have "pos_caps p2 = []"
    using rx_match_no_caps(1) [OF nc(2) m(2)] m(1) by (auto split: if_splits)
  moreover obtain ts where "pos_caps p3 = pos_caps p2 @ [ts]"
    using rx_match_Cap [OF nc(1) m(3)] by blast
  moreover have "pos_caps p4 = pos_caps p3" "pos_caps p6 = pos_caps p5"
    using rx_match_Plus [OF m(4)] rx_match_Plus [OF m(6)] by simp_all
  moreover obtain host where "host \<noteq> []" "pos_caps p5 = pos_caps p4 @ [host]"
    using rx_match_Cap_Plus [OF m(5)] by blast
  moreover obtain body where "pos_caps p7 = pos_caps p6 @ [body]"
    using rx_match_Cap [OF _ m(7)] by auto
  moreover have "pos_caps p = pos_caps p7" using m(8) by (auto split: if_splits)
  ultimately show ?thesis by auto
qed

lemma split_header_host:
  "split_header raw trimmed = (ts, host, body) \<Longrightarrow> host \<noteq> []"
  using header_captures rx_find_match
  by (fastforce simp: split_header_def find_submatch_def split: option.splits list.splits if_splits)

lemma syslog_event_contract:
  "complete_parsed (syslog_event uc now raw t) \<and> int64_ports (syslog_event uc now raw t)"
proof -
  obtain ts host body where h: "split_header raw t = (ts, host, body)" by (metis prod_cases3)
  let ?kv = "collect_kv uc (find_all_submatch kvRegex body) Map.empty"
  obtain a0 p0 where ap: "scan_tokens uc (split_words body) (''unknown'', ''unknown'') = (a0, p0)" by force
  obtain si sp di dp where ep: "endpoint ?kv ''SRC'' ''SPT'' = (si, sp)" "endpoint ?kv ''DST'' ''DPT'' = (di, dp)"
    by force
  have "a0 \<noteq> []" "p0 \<noteq> []"
    using scan_tokens_nonempty [of "(''unknown'', ''unknown'')" uc "split_words body"] by (simp_all add: ap)
  moreover have "?kv k = Some v \<Longrightarrow> v \<noteq> []" for k v by (rule kv_map_nonempty)
  ultimately show ?thesis
    using split_header_host [OF h] parseSyslogTimestamp_nonempty [of now ts]
      endpoint_range [of ?kv "''SRC''" "''SPT''"] endpoint_range [of ?kv "''DST''" "''DPT''"]
    unfolding syslog_event_def h ap ep Let_def prod.case complete_parsed_def int64_ports_def
    by (simp add: ep split: option.split)
qed

interpretation syslog: format_parser "SyslogParser pf" "''syslog''" for pf
proof
  show "\<exists>e. Parse (SyslogParser pf) now raw = Inl e" if "trim_space (re_Payload raw) = []" for raw now
    using that by (simp add: SyslogParser_def SyslogParse_def)
  show "\<exists>e. r = Some e \<and> complete_parsed e \<and> int64_ports e"
    if "Parse (SyslogParser pf) now raw = Inr r" for now raw r
    using that syslog_event_contract
    by (auto simp: SyslogParser_def SyslogParse_def Let_def split: if_splits)
qed (simp_all add: SyslogParser_def format_names_clean [simplified])

text \<open>An address and port joined by a colon split again.\<close>

lemma split_host_port_join:
  assumes "CHR '':'' \<notin> set host" "CHR ''['' \<notin> set host" "CHR '']'' \<notin> set host"
    and "CHR '':'' \<notin> set port" "CHR ''['' \<notin> set port" "CHR '']'' \<notin> set port"
  shows "split_host_port (host @ CHR '':'' # port) = Some (host, port)"
proof -
  let ?P = "\<lambda>c. c \<noteq> CHR '':''"
  have t: "takeWhile ?P (rev (host @ CHR '':'' # port)) = rev port"
    using assms(4) takeWhile_separator [of "CHR '':''" "rev port" "rev host"] by simp
  have h: "take (length (host @ CHR '':'' # port) - length port - 1) (host @ CHR '':'' # port) = host" by simp
  have c: "CHR '':'' \<in> set (host @ CHR '':'' # port)" by simp
  show ?thesis
    unfolding split_host_port_def Let_def t rev_rev_ident h using assms c
    by (cases host) auto
qed

lemma contains_colon: "contains '':'' (host @ CHR '':'' # port)"
  by (induction host) simp_all

lemma splitIPAndPort_join:
  assumes "CHR '':'' \<notin> set host" "CHR ''['' \<notin> set host" "CHR '']'' \<notin> set host" and "in_int64 n"
  shows "splitIPAndPort (host @ '':'' @ itoa n) = (host, Some n)"
  using split_host_port_join [OF assms(1-3) itoa_no_separators [of n]] contains_colon [of host "itoa n"] atoi_itoa [OF assms(4)]
  by (simp add: splitIPAndPort_def)

section \<open>Timestamps\<close>

text \<open>A stamp with a two-digit day is read in the current year; one with a padded one-digit day is not read.\<close>

lemma parseSyslogTimestamp_bsd:
  assumes "1000 \<le> year_of t" and "year_of t \<le> 9999" and "year_of (now 0) = year_of t"
  shows "parseSyslogTimestamp now (bsd_stamp t) = format_rfc3339 t"
proof -
  have "bsd_stamp t \<noteq> []" by (simp add: bsd_stamp_def split: prod.split)
  then show ?thesis
    using parse_bsd_stamp [OF assms(1,2)] by (simp add: parseSyslogTimestamp_def bsd_stamp_not_rfc3339 assms(3))
qed

lemma parseSyslogTimestamp_short_day:
  assumes "1 \<le> m" and "m \<le> 12" and "is_digit d" and "1000 \<le> year_of (now 0)" and "year_of (now 0) \<le> 9999"
  shows "parseSyslogTimestamp now (short_months ! nat (m - 1) @ ''  '' @ d # '' '' @ rest) = format_rfc3339 (now 1)"
proof -
  obtain x xs where n: "short_months ! nat (m - 1) = x # xs" "\<not> is_digit x" "x \<noteq> CHR '' ''"
    using month_names [OF assms(1,2)] by blast
  let ?raw = "short_months ! nat (m - 1) @ ''  '' @ d # '' '' @ rest"
  have "parse_rfc3339 ?raw = None" by (simp add: n parse_rfc3339_def long_year_def)
  moreover have "skip_space (''  '' @ d # '' '' @ rest) = Some (d # '' '' @ rest)" "getnum True (d # '' '' @ rest) = None"
    using assms(3) by (auto simp: skip_space_def getnum_def is_digit_def)
  then have "parse_year_stamp (itoa (year_of (now 0)) @ '' '' @ ?raw) = None"
    using year_text(2) [OF assms(4,5)] lookup_month_name [OF assms(1,2)] skip_one_space [of ?raw] n(1,3)
    by (simp add: parse_year_stamp_def)
  ultimately show ?thesis by (simp add: parseSyslogTimestamp_def n)
qed

text \<open>The header must begin with a month or a priority.\<close>

lemma month_first:
  assumes "\<not> is_upper c" and "c \<noteq> CHR ''<''"
  shows "rx_match (Cat (Begin # Opt (Cat (Word ''<'' # rs)) # Cap (Cat (One Upper # us)) # vs)) (None, c # s, []) = []"
  using assms by (simp add: Word_def class_width_def)

lemma header_needs_month:
  assumes "is_digit c"
  shows "find_submatch syslogHeaderRegex (c # s) = None"
proof -
  have none: "rx_match syslogHeaderRegex (Some b, t, []) = []" for b t
    by (simp add: syslogHeaderRegex_def)
  have "rx_find syslogHeaderRegex (Some b) t = None" for b t
    by (induction t arbitrary: b) (subst rx_find.simps, simp add: none)+
  moreover have "rx_match syslogHeaderRegex (None, c # s, []) = []"
    unfolding syslogHeaderRegex_def by (rule month_first) (use assms in \<open>auto simp: is_digit_def is_upper_def\<close>)
  ultimately show ?thesis unfolding find_submatch_def by (subst rx_find.simps) simp
qed


lemma no_header_timestamp:
  assumes "find_submatch syslogHeaderRegex trimmed = None"
  shows "pe_Timestamp (syslog_event uc now raw trimmed) = format_rfc3339 (now 0)"
  by (simp add: syslog_event_def split_header_def assms parseSyslogTimestamp_def Let_def split: prod.split)

section \<open>Action and protocol words\<close>

definition action_words :: "string list" where
  "action_words = [''DENY'', ''DROP'', ''BLOCK'', ''ALLOW'', ''ACCEPT'', ''PERMIT'']"

definition protocol_words :: "string list" where
  "protocol_words = [''TCP'', ''UDP'', ''ICMP'']"

definition word_action :: "string \<Rightarrow> string" where
  "word_action t = (if t \<in> {''DENY'', ''DROP'', ''BLOCK''} then ''deny'' else ''allow'')"

definition last_or :: "'a \<Rightarrow> 'a list \<Rightarrow> 'a" where
  "last_or x xs = (if xs = [] then x else last xs)"

lemma last_or_Cons: "last_or x (y # ys) = last_or y ys"
  by (simp add: last_or_def)

lemma scan_tokens_last:
  "scan_tokens uc toks (action, protocol) =
     (last_or action (map word_action (filter (\<lambda>t. t \<in> set action_words) (map (to_upper uc) toks))),
      last_or protocol (filter (\<lambda>t. t \<in> set protocol_words) (map (to_upper uc) toks)))"
proof (induction toks arbitrary: action protocol)
  case (Cons t ts)
  show ?case by (simp add: Let_def Cons.IH action_words_def protocol_words_def word_action_def last_or_Cons)
qed (simp add: last_or_def)

end
