(* ===== verification/Programs.thy ===== *)
theory Programs
  imports Ingestion Worker Csv_Parser Json_Parser Syslog_Parser
begin

text \<open>
  The parts of the two commands, \<open>cmd/ingestion/main.go\<close> and \<open>cmd/worker/main.go\<close>, from the
  environment variables to the assembled service and worker.  \<open>Commands\<close> has their runs.
\<close>

section \<open>Environment variables\<close>

type_synonym environ = "string \<Rightarrow> string"

text \<open>
  The loop of \<open>strconv.ParseUint(s, 10, 64)\<close>: \<open>None\<close> is a syntax error; the loop stops with the
  greatest \<open>uint64\<close> at the first digit that overflows, whatever follows it.
\<close>

fun parse_uint64 :: "int \<Rightarrow> string \<Rightarrow> int option" where
  "parse_uint64 n [] = Some n"
| "parse_uint64 n (c # cs) =
     (if \<not> is_digit c then None
      else let n1 = n * 10 + digit_val c
           in if n1 > 2 ^ 64 - 1 then Some (2 ^ 64 - 1) else parse_uint64 n1 cs)"

text \<open>
  \<open>n, _ := strconv.ParseInt(s, 10, 64)\<close>: the error is dropped, so a syntax error gives 0 and a
  number out of range the nearest \<open>int64\<close>.
\<close>

definition parse_int64_lax :: "string \<Rightarrow> int" where
  "parse_int64_lax s =
     (let (neg, ds) = (case s of
            c # cs \<Rightarrow> if c = CHR ''-'' then (True, cs) else if c = CHR ''+'' then (False, cs)
                     else (False, s)
          | [] \<Rightarrow> (False, []))
      in if ds = [] then 0
         else (case parse_uint64 0 ds of
                 None \<Rightarrow> 0
               | Some un \<Rightarrow>
                   if \<not> neg \<and> un \<ge> 2 ^ 63 then int64_max
                   else if neg \<and> un > 2 ^ 63 then int64_min
                   else if neg then - un else un))"

text \<open>A number that was printed is read back.\<close>

lemma foldl_digits_ge: "list_all is_digit ds \<Longrightarrow> 0 \<le> n \<Longrightarrow> n \<le> foldl (\<lambda>n c. n * 10 + digit_val c) n ds"
proof (induction ds arbitrary: n)
  case (Cons c ds)
  have d: "0 \<le> digit_val c" using Cons.prems by (simp add: digit_val_def is_digit_def)
  then have "n * 10 + digit_val c \<le> foldl (\<lambda>n c. n * 10 + digit_val c) (n * 10 + digit_val c) ds" using Cons by simp
  then show ?case using d Cons.prems(2) by simp
qed simp

lemma parse_uint64_digits:
  assumes "list_all is_digit ds" and "0 \<le> n" and "foldl (\<lambda>n c. n * 10 + digit_val c) n ds \<le> 2 ^ 64 - 1"
  shows "parse_uint64 n ds = Some (foldl (\<lambda>n c. n * 10 + digit_val c) n ds)"
  using assms
proof (induction ds arbitrary: n)
  case (Cons c ds)
  have d: "0 \<le> digit_val c" using Cons.prems by (simp add: digit_val_def is_digit_def)
  then have "n * 10 + digit_val c \<le> 2 ^ 64 - 1" using foldl_digits_ge [of ds "n * 10 + digit_val c"] Cons.prems by simp
  then show ?case using Cons d by (simp add: Let_def)
qed simp

lemma parse_int64_itoa:
  assumes "in_int64 n"
  shows "parse_int64_lax (itoa n) = n"
proof -
  have r: "parse_uint64 0 (nat_digits k) = Some k" if "0 \<le> k" "k \<le> 2 ^ 63" for k
    using parse_uint64_digits [of "nat_digits k" 0] nat_digits_correct [OF that(1)] that(2) by (simp add: digits_val_def)
  show ?thesis
  proof (cases "n < 0")
    case True
    then show ?thesis using r [of "- n"] nat_digits_correct [of "- n"] assms
      by (auto simp: parse_int64_lax_def itoa_def in_int64_def)
  next
    case False
    then obtain c cs where c: "nat_digits n = c # cs" "is_digit c" using nat_digits_hd [of n] by auto
    then have "c \<noteq> CHR ''-''" "c \<noteq> CHR ''+''" by (auto simp: is_digit_def)
    with c False show ?thesis using r [of n] assms
      by (auto simp: parse_int64_lax_def itoa_def in_int64_def simp del: parse_uint64.simps)
  qed
qed

section \<open>Ingestion service\<close>

definition ingestion_port :: "environ \<Rightarrow> string" where
  "ingestion_port getenv = or_default (getenv ''PORT'') ''8080''"

definition redis_address :: "environ \<Rightarrow> string" where
  "redis_address getenv = or_default (getenv ''REDIS_ADDR'') ''localhost:6379''"

definition raw_stream_name :: "environ \<Rightarrow> string" where
  "raw_stream_name getenv = or_default (getenv ''RAW_STREAM_NAME'') DefaultRawStreamName"

definition stream_max_len :: "environ \<Rightarrow> int" where
  "stream_max_len getenv = parse_int64_lax (getenv ''RAW_EVENT_STREAM_MAXLEN'')"

text \<open>\<open>dial addr password db\<close> is the client made by \<open>goredis.NewClient\<close>.\<close>

definition ingestion_main ::
  "(string \<Rightarrow> string \<Rightarrow> int \<Rightarrow> 'w redis_client) \<Rightarrow> 'w host \<Rightarrow> environ \<Rightarrow> 'w Service" where
  "ingestion_main dial h getenv =
     (let rdb = dial (redis_address getenv) (getenv ''REDIS_PASSWORD'') 0;
          rawBuffer = redis_raw_buffer (NewRedisRawBuffer rdb (stream_max_len getenv))
      in ingestion_service h (NewService (Some rawBuffer) (raw_stream_name getenv)))"

section \<open>Worker\<close>

definition minio_config :: "environ \<Rightarrow> MinIOConfig" where
  "minio_config getenv =
     \<lparr>mc_Endpoint = or_default (getenv ''MINIO_ENDPOINT'') ''localhost:9000'',
      mc_AccessKeyID = or_default (getenv ''MINIO_ACCESS_KEY'') ''minioadmin'',
      mc_SecretAccessKey = or_default (getenv ''MINIO_SECRET_KEY'') ''minioadminpassword'',
      mc_UseSSL = (getenv ''MINIO_USE_SSL'' = ''true''),
      mc_BucketName = or_default (getenv ''MINIO_BUCKET'') ''raw-events''\<rparr>"

definition worker_config :: "environ \<Rightarrow> Config" where
  "worker_config getenv =
     (let claimIdleMs = parse_int64_lax (getenv ''RAW_EVENT_CLAIM_IDLE_MS'')
      in \<lparr>c_StreamName = raw_stream_name getenv,
          c_GroupName = or_default (getenv ''CONSUMER_GROUP'') DefaultGroupName,
          c_ConsumerName = or_default (getenv ''CONSUMER_NAME'') ''worker-1'',
          c_ClaimIdleMs = (if claimIdleMs = 0 then 60000 else claimIdleMs),
          c_LockTTLSeconds = parse_int64_lax (getenv ''IDEMPOTENCY_LOCK_TTL_S''),
          c_DoneTTLSeconds = parse_int64_lax (getenv ''IDEMPOTENCY_DONE_TTL_S''),
          c_BatchSize = parse_int64_lax (getenv ''WORKER_BATCH_SIZE''),
          c_Concurrency = parse_int64_lax (getenv ''WORKER_CONCURRENCY'')\<rparr>)"

definition production_registry :: "platform \<Rightarrow> Registry" where
  "production_registry pf =
     Register (tables pf) (Some (CSVParser pf))
       (Register (tables pf) (Some (JSONParser pf))
         (Register (tables pf) (Some (SyslogParser pf)) NewRegistry))"

text \<open>The wait for Redis: ping until it answers, two seconds apart.\<close>

partial_function (option) await_redis :: "'w host \<Rightarrow> 'w RedisRawBuffer \<Rightarrow> 'w \<Rightarrow> 'w option" where
  "await_redis h rb w = (case redis_Ping rb w of
       (None, w1) \<Rightarrow> Some w1
     | (Some _, w1) \<Rightarrow> await_redis h rb (time_Sleep h (2 * Second) w1))"

text \<open>
  The raw store: MinIO, or a new in-memory store when it is unavailable; \<open>cell\<close> reads and
  writes the memory of the process that holds the map of that store.
\<close>

definition choose_raw_store ::
  "(string \<Rightarrow> string \<Rightarrow> string \<Rightarrow> bool \<Rightarrow> 'w minio_client result) \<Rightarrow>
   ('w \<Rightarrow> MemoryRawStore) \<times> (MemoryRawStore \<Rightarrow> 'w \<Rightarrow> 'w) \<Rightarrow> environ \<Rightarrow> 'w \<Rightarrow> 'w RawEventStore \<times> 'w" where
  "choose_raw_store new cell getenv w =
     (case NewMinIORawStore new (minio_config getenv) w of
        (Inl _, w') \<Rightarrow> (memory_store_in (fst cell) (snd cell), snd cell NewMemoryRawStore w')
      | (Inr minioStore, w') \<Rightarrow> (minio_raw_store minioStore, w'))"

text \<open>The assembled worker for a raw store and a compiled schema.\<close>

definition production_worker ::
  "platform \<Rightarrow> 'w redis_client \<Rightarrow> 'w RawEventStore \<Rightarrow> compiled_schema \<Rightarrow> environ \<Rightarrow> 'w Worker" where
  "production_worker pf rdb rawStore cs getenv =
     NewWorker (redis_raw_buffer (NewRedisRawBuffer rdb (stream_max_len getenv)))
       (Some (redis_idempotency rdb)) (Some rawStore) (Detect (tables pf)) (Analyze (tables pf))
       (EngineParse (tables pf) (production_registry pf)) (Validate cs) (worker_config getenv)"

section \<open>The production registry\<close>

lemma production_registry_entries:
  "production_registry pf =
     [''syslog'' \<mapsto> SyslogParser pf, ''json'' \<mapsto> JSONParser pf, ''csv'' \<mapsto> CSVParser pf]"
  by (simp add: production_registry_def csv.registered json.registered syslog.registered NewRegistry_def)

lemma production_lookup:
  "Get (tables pf) (production_registry pf) ''csv'' = Inr (CSVParser pf)"
  "Get (tables pf) (production_registry pf) ''json'' = Inr (JSONParser pf)"
  "Get (tables pf) (production_registry pf) ''syslog'' = Inr (SyslogParser pf)"
  by (simp_all add: Get_def production_registry_entries csv.normalized_name json.normalized_name
      syslog.normalized_name)

lemma unknown_lookup:
  "Get (tables pf) (production_registry pf) FormatUnknown = Inl (Errorf (''no parser registered for format: unknown''))"
  using format_constants_clean(4,8)
  by (simp add: Get_def normalizeFormat_def production_registry_entries FormatUnknown_def)

section \<open>The production pipeline\<close>

text \<open>Whether an event parses does not depend on the clock.\<close>

lemma parsers_clock_free:
  "isl (CSVParse pf now raw) = isl (CSVParse pf now' raw)"
  "isl (JSONParse pf now raw) = isl (JSONParse pf now' raw)"
  "isl (SyslogParse pf now raw) = isl (SyslogParse pf now' raw)"
  by (simp_all add: CSVParse_def JSONParse_def SyslogParse_def Let_def split: list.split sum.split)

abbreviation production_engine ::
  "platform \<Rightarrow> clock_readings \<Rightarrow> RawEvent \<Rightarrow> DetectionResult \<Rightarrow> ParsedEvent option result" where
  "production_engine pf \<equiv> EngineParse (tables pf) (production_registry pf)"

definition processable :: "platform \<Rightarrow> RawEvent \<Rightarrow> bool" where
  "processable pf e \<longleftrightarrow>
     \<not> isl (production_engine pf (\<lambda>_. 0) e (Detect (tables pf) (re_Payload e) (re_Format e)))"

lemma format_names [simp]:
  "FormatSyslog = ''syslog''" "FormatJSON = ''json''" "FormatCSV = ''csv''"
  by (simp_all add: FormatSyslog_def FormatJSON_def FormatCSV_def)

text \<open>What the engine does on a detector result.\<close>

lemma engine_on_detection:
  assumes "d = Detect (tables pf) p hint"
  shows "production_engine pf now e d =
    (if dr_Format d = FormatUnknown then
       Inl (Wrap ''parser selection failed'' (Errorf ''no parser registered for format: unknown''))
     else case (if dr_Format d = ''csv'' then CSVParse pf now e
                else if dr_Format d = ''json'' then JSONParse pf now e else SyslogParse pf now e) of
            Inl err \<Rightarrow> Inl (Wrap (''parsing failed for format '' @ dr_Format d) err)
          | Inr r \<Rightarrow> Inr r)"
proof -
  consider "dr_Format d = FormatUnknown" | "dr_Format d = ''csv''" | "dr_Format d = ''json''" | "dr_Format d = ''syslog''"
    using Detect_formats [of "tables pf" p hint] assms by auto
  then show ?thesis
  proof cases
    case 1
    then show ?thesis by (simp add: EngineParse_def unknown_lookup)
  qed (simp_all add: EngineParse_def production_lookup CSVParser_def JSONParser_def SyslogParser_def FormatUnknown_def)
qed

lemma engine_error:
  assumes "d = Detect (tables pf) p hint"
  shows "isl (production_engine pf now e d) \<longleftrightarrow>
    dr_Format d = FormatUnknown \<or>
    (if dr_Format d = ''csv'' then isl (CSVParse pf now e)
     else if dr_Format d = ''json'' then isl (JSONParse pf now e) else isl (SyslogParse pf now e))"
  unfolding engine_on_detection [OF assms] by simp

lemma engine_clock_free:
  "isl (production_engine pf now e (Detect (tables pf) p hint)) =
   isl (production_engine pf now' e (Detect (tables pf) p hint))"
  unfolding engine_error [OF refl]
  using parsers_clock_free(1) [of pf now e now'] parsers_clock_free(2) [of pf now e now']
    parsers_clock_free(3) [of pf now e now'] by simp

text \<open>A parsed event carries a value that meets the parser contract.\<close>

lemma engine_contract:
  assumes "production_engine pf now e (Detect (tables pf) p hint) = Inr r"
  shows "\<exists>x. r = Some x \<and> complete_parsed x \<and> int64_ports x"
proof -
  let ?d = "Detect (tables pf) p hint"
  consider "dr_Format ?d = FormatUnknown" | "dr_Format ?d = ''csv''" | "dr_Format ?d = ''json''" | "dr_Format ?d = ''syslog''"
    using Detect_formats [of "tables pf" p hint] by auto
  then show ?thesis
  proof cases
    case 1
    then show ?thesis using assms by (simp add: engine_on_detection [OF refl])
  next
    case 2
    then show ?thesis using csv.engine_complete [OF _ 2 assms] by (simp add: production_registry_entries)
  next
    case 3
    then show ?thesis using json.engine_complete [OF _ 3 assms] by (simp add: production_registry_entries)
  next
    case 4
    then show ?thesis using syslog.engine_complete [OF _ 4 assms] by (simp add: production_registry_entries)
  qed
qed

section \<open>Waiting for Redis\<close>

text \<open>The world after \<open>n\<close> pings and pauses.\<close>

fun after_pings :: "'w host \<Rightarrow> 'w RedisRawBuffer \<Rightarrow> nat \<Rightarrow> 'w \<Rightarrow> 'w" where
  "after_pings h rb 0 w = w"
| "after_pings h rb (Suc n) w = after_pings h rb n (time_Sleep h (2 * Second) (snd (redis_Ping rb w)))"

lemma await_redis_step:
  "await_redis h rb w = (case redis_Ping rb w of (None, w1) \<Rightarrow> Some w1
     | (Some _, w1) \<Rightarrow> await_redis h rb (time_Sleep h (2 * Second) w1))"
  by (rule await_redis.simps)

lemma await_redis_returns:
  assumes "redis_Ping rb (after_pings h rb n w) = (None, w')"
    and "\<And>k. k < n \<Longrightarrow> fst (redis_Ping rb (after_pings h rb k w)) \<noteq> None"
  shows "await_redis h rb w = Some w'"
  using assms
proof (induction n arbitrary: w)
  case (Suc n)
  have "fst (redis_Ping rb w) \<noteq> None" using Suc.prems(2) [of 0] by simp
  then obtain er w1 where p: "redis_Ping rb w = (Some er, w1)" by (cases "redis_Ping rb w") auto
  have "await_redis h rb (time_Sleep h (2 * Second) w1) = Some w'"
  proof (rule Suc.IH)
    show "redis_Ping rb (after_pings h rb n (time_Sleep h (2 * Second) w1)) = (None, w')" using Suc.prems(1) p by simp
    show "fst (redis_Ping rb (after_pings h rb k (time_Sleep h (2 * Second) w1))) \<noteq> None" if "k < n" for k
      using Suc.prems(2) [of "Suc k"] that p by simp
  qed
  then show ?case by (subst await_redis_step) (simp add: p)
qed (subst await_redis_step, simp)

lemma returns_await_redis:
  assumes "await_redis h rb w = Some w'"
  shows "\<exists>n. redis_Ping rb (after_pings h rb n w) = (None, w')"
proof (rule await_redis.raw_induct [where P = "\<lambda>h rb w w'. \<exists>n. redis_Ping rb (after_pings h rb n w) = (None, w')", OF _ assms],
    goal_cases)
  case (1 f h rb w w')
  show ?case
  proof (cases "redis_Ping rb w")
    case (Pair er w1)
    show ?thesis
    proof (cases er)
      case None
      then show ?thesis using 1(2) Pair by (intro exI [of _ 0]) simp
    next
      case (Some x)
      then obtain n where "redis_Ping rb (after_pings h rb n (time_Sleep h (2 * Second) w1)) = (None, w')"
        using 1 Pair by fastforce
      then show ?thesis using Pair Some by (intro exI [of _ "Suc n"]) simp
    qed
  qed
qed

lemma await_redis_some:
  "await_redis h rb w = Some w1 \<longleftrightarrow>
   (\<exists>k. redis_Ping rb (after_pings h rb k w) = (None, w1) \<and> (\<forall>j < k. fst (redis_Ping rb (after_pings h rb j w)) \<noteq> None))"
proof
  assume a: "await_redis h rb w = Some w1"
  define k where "k = (LEAST k. fst (redis_Ping rb (after_pings h rb k w)) = None)"
  have "\<exists>k. fst (redis_Ping rb (after_pings h rb k w)) = None" using returns_await_redis [OF a] by (metis fst_conv)
  then have f: "fst (redis_Ping rb (after_pings h rb k w)) = None" unfolding k_def by (rule LeastI_ex)
  have m: "\<forall>j < k. fst (redis_Ping rb (after_pings h rb j w)) \<noteq> None" using not_less_Least unfolding k_def by blast
  obtain w2 where w2: "redis_Ping rb (after_pings h rb k w) = (None, w2)" using f by (cases "redis_Ping rb (after_pings h rb k w)") simp
  then have "w2 = w1" using await_redis_returns [of rb h k w w2] m a by simp
  then show "\<exists>k. redis_Ping rb (after_pings h rb k w) = (None, w1) \<and> (\<forall>j < k. fst (redis_Ping rb (after_pings h rb j w)) \<noteq> None)"
    using w2 m by blast
qed (auto intro: await_redis_returns)

end
