(* ===== verification/Pipeline.thy ===== *)
theory Pipeline
  imports Programs
begin

text \<open>
  The processing pipeline with the stages the worker command installs: what it returns for an
  event, and how detection and parsing agree.
\<close>

section \<open>The production stages\<close>

definition production_stages :: "platform \<Rightarrow> compiled_schema \<Rightarrow> 'w Worker \<Rightarrow> bool" where
  "production_stages pf cs wk \<longleftrightarrow>
     w_detector wk = Detect (tables pf) \<and> w_driftDetector wk = Analyze (tables pf) \<and>
     w_parserEngine wk = production_engine pf \<and> w_validator wk = Validate cs"

lemma production_worker_stages: "production_stages pf cs (production_worker pf rdb st cs env)"
  by (simp add: production_stages_def production_worker_def NewWorker_def)

lemma pipeline_error:
  assumes "production_stages pf cs wk"
  shows "isl (run_pipeline wk rd cerr e) \<longleftrightarrow> \<not> processable pf e"
proof -
  let ?d = "Detect (tables pf) (re_Payload e) (re_Format e)"
  show ?thesis
  proof (cases "production_engine pf (parse_clock rd) e ?d")
    case (Inl err)
    then show ?thesis
      using engine_clock_free [of pf "parse_clock rd" e "re_Payload e" "re_Format e" "\<lambda>_. 0"]
      by (simp add: run_pipeline_def assms [unfolded production_stages_def] processable_def split: prod.split)
  next
    case (Inr r)
    then obtain x where "r = Some x" using engine_contract by blast
    then obtain u where "Normalize (drawn_uuid rd) (normalize_clock rd) e r ?d = Inr u" using Normalize_Some by blast
    with Inr show ?thesis
      using engine_clock_free [of pf "parse_clock rd" e "re_Payload e" "re_Format e" "\<lambda>_. 0"]
      by (simp add: run_pipeline_def assms [unfolded production_stages_def] processable_def Let_def split: prod.split)
  qed
qed

text \<open>The fields of a result.\<close>

lemma pipeline_result:
  assumes "production_stages pf cs wk" and "run_pipeline wk rd cerr e = Inr res"
  shows "\<exists>x. production_engine pf (parse_clock rd) e (Detect (tables pf) (re_Payload e) (re_Format e)) = Inr (Some x) \<and>
      complete_parsed x \<and> int64_ports x \<and>
      Normalize (drawn_uuid rd) (normalize_clock rd) e (Some x) (Detect (tables pf) (re_Payload e) (re_Format e)) =
        Inr (pr_UniversalEvent res) \<and>
      pr_EventID res = ue_EventID (pr_UniversalEvent res) \<and>
      pr_Valid res = vr_Valid (Validate cs (Some (pr_UniversalEvent res))) \<and>
      pr_Errors res = vr_Errors (Validate cs (Some (pr_UniversalEvent res))) \<and>
      pr_Drift res = fst (Analyze (tables pf) cerr e (Detect (tables pf) (re_Payload e) (re_Format e)))"
proof -
  let ?d = "Detect (tables pf) (re_Payload e) (re_Format e)"
  obtain r where r: "production_engine pf (parse_clock rd) e ?d = Inr r"
    using assms(2) by (auto simp: run_pipeline_def assms(1) [unfolded production_stages_def] Let_def split: sum.splits prod.splits)
  from engine_contract [OF r] obtain x where x: "r = Some x" "complete_parsed x" "int64_ports x" by blast
  show ?thesis using assms(2) r x
    by (auto simp: run_pipeline_def assms(1) [unfolded production_stages_def] Let_def split: sum.splits prod.splits)
qed

lemma pipeline_valid_iff:
  assumes "implements cs universal_schema" and "production_stages pf cs wk" and "run_pipeline wk rd cerr e = Inr res"
  shows "pr_Valid res \<longleftrightarrow> ports_in_range (pr_UniversalEvent res)"
proof -
  let ?d = "Detect (tables pf) (re_Payload e) (re_Format e)"
  obtain x where x: "int64_ports x" "Normalize (drawn_uuid rd) (normalize_clock rd) e (Some x) ?d = Inr (pr_UniversalEvent res)"
      "pr_Valid res = vr_Valid (Validate cs (Some (pr_UniversalEvent res)))"
    using pipeline_result [OF assms(2,3)] by blast
  have "ue_Network (pr_UniversalEvent res) = pe_Network x" using Normalize_fields(4) [OF x(2)] by auto
  then have "network_int64 n" if "ue_Network (pr_UniversalEvent res) = Some n" for n
    using that int64_ports_network [OF x(1)] by simp
  then show ?thesis using Validate_iff [OF assms(1) Normalize_canonical [OF x(2)]] x(3) by simp
qed

text \<open>The effects of \<open>ProcessSingleEvent\<close> do not influence its result but for the readings.\<close>

lemma Process_run: "\<exists>rd cerr. fst (ProcessSingleEvent h wk e w) = run_pipeline wk rd cerr e"
  by (auto simp: ProcessSingleEvent_def split: prod.split)

section \<open>Detection agrees with parsing\<close>

lemma csv_shape_parses:
  assumes "csv_shape (tables pf) (trim_space (re_Payload e))"
  shows "\<not> isl (CSVParse pf now e)"
proof -
  have "trim_space (re_Payload e) \<noteq> []" using assms by (auto simp: csv_shape_def contains_def)
  then show ?thesis using assms
    by (auto simp: csv_shape_def CSVParse_def Let_def split: sum.splits list.splits)
qed

lemma nonblank_syslog_parses: "trim_space (re_Payload e) \<noteq> [] \<Longrightarrow> \<not> isl (SyslogParse pf now e)"
  by (simp add: SyslogParse_def)

text \<open>Without a recognised hint: CSV and syslog content parses, unknown content does not.\<close>

lemma processable_by_content:
  assumes "to_lower (tables pf) (trim_space (re_Format e)) \<notin> {''syslog'', ''json'', ''csv''}"
  defines "d \<equiv> Detect (tables pf) (re_Payload e) (re_Format e)"
  shows "processable pf e \<longleftrightarrow>
    dr_Format d = ''csv'' \<or> dr_Format d = ''syslog'' \<or>
    dr_Format d = ''json'' \<and> \<not> isl (dec_schema (trim_space (re_Payload e)))"
  using assms(1) csv_shape_parses [of pf e "\<lambda>_. 0"] nonblank_syslog_parses [of e pf "\<lambda>_. 0"]
  unfolding processable_def engine_error [OF refl] d_def
  by (auto simp: Detect_def detection_def Let_def JSONParse_def FormatUnknown_def split: sum.splits)

end
