(* ===== verification/Worker_Batch.thy ===== *)
theory Worker_Batch
  imports Worker_Pool
begin

text \<open>
  \<open>processMessages\<close> of \<open>worker.go\<close> as a whole: the empty batch, the sequential loop and the
  goroutine pool.  The pool is simulated by the interleavings of \<open>Worker_Concurrency\<close>, and a
  batch that runs to its end does to locks, markers and messages what the ledger promises.
\<close>

section \<open>The operation\<close>

text \<open>\<open>may_cancel\<close>: the context may be cancelled while the pool runs.\<close>

inductive processMessages :: "'w host \<Rightarrow> 'w Worker \<Rightarrow> bool \<Rightarrow> RawMessage list \<Rightarrow> 'w \<Rightarrow> 'w \<Rightarrow> bool" for h wk may_cancel where
  empty: "processMessages h wk may_cancel [] w w"
| sequential: "messages \<noteq> [] \<Longrightarrow> w_concurrency wk \<le> 1 \<Longrightarrow>
    processMessages h wk may_cancel messages w (process_sequential h wk messages w)"
| parallel: "messages \<noteq> [] \<Longrightarrow> 1 < w_concurrency wk \<Longrightarrow>
    pool_reach h wk may_cancel (start_pool messages w) n s \<Longrightarrow> po_main s = Returned \<Longrightarrow>
    processMessages h wk may_cancel messages w (po_world s)"

inductive_cases processMessagesE: "processMessages h wk mc ms w w'"

section \<open>It returns\<close>

lemma pool_returns_from:
  assumes "pool_reach h wk False (start_pool msgs w) n s" and "0 < w_concurrency wk"
  shows "\<exists>n' s'. pool_reach h wk False (start_pool msgs w) n' s' \<and> po_main s' = Returned"
  using assms(1)
proof (induction "pool_left s" arbitrary: n s rule: less_induct)
  case less
  note i = pool_reach_inv [OF less.prems]
  show ?case
  proof (cases "po_main s = Returned")
    case False
    then obtain s' where s': "pool_step h wk False s s'"
      using pool_progress [OF i pool_reach_slots [OF less.prems]] assms(2) by fastforce
    show ?thesis
      by (rule less.hyps [OF pool_step_decreases [OF i s'] pool_next [OF less.prems s']])
  qed (use less.prems in blast)
qed

lemma processMessages_total: "\<exists>w'. processMessages h wk False ms w w'"
proof (cases "ms = [] \<or> w_concurrency wk \<le> 1")
  case True
  then show ?thesis using processMessages.empty processMessages.sequential by metis
next
  case False
  then show ?thesis
    using pool_returns_from [OF pool_refl, of wk h ms w] processMessages.parallel [of ms wk h False w] by fastforce
qed

section \<open>The pool is an interleaving\<close>

fun go_pc :: "goroutine \<Rightarrow> pc" where
  "go_pc (Busy p) = p"
| "go_pc _ = AtEnd"

definition pool_pcs :: "'w pool \<Rightarrow> pc list" where
  "pool_pcs s = map (go_pc \<circ> snd) (po_gos s) @ replicate (length (po_todo s)) AtIsDone"

lemma pool_pcs_update:
  "i < length (po_gos s) \<Longrightarrow> po_gos s ! i = (m, g) \<Longrightarrow>
     pool_pcs (s\<lparr>po_gos := (po_gos s)[i := (m, g')]\<rparr>) = (pool_pcs s)[i := go_pc g']"
  by (simp add: pool_pcs_def map_update list_update_append)

lemma pool_pcs_same: "po_gos s' = po_gos s \<Longrightarrow> po_todo s' = po_todo s \<Longrightarrow> pool_pcs s' = pool_pcs s"
  by (simp add: pool_pcs_def)

lemma pool_pcs_nth: "i < length (po_gos s) \<Longrightarrow> po_gos s ! i = (m, g) \<Longrightarrow> pool_pcs s ! i = go_pc g"
  by (simp add: pool_pcs_def nth_append)

text \<open>A step of the pool is a step of the goroutines or changes nothing they see.\<close>

lemma pool_step_simulated:
  assumes "pool_inv msgs s" and "pool_step h wk mc s s'"
  shows "pool_pcs s' = pool_pcs s \<and> po_world s' = po_world s \<or>
    (\<exists>i p w'. i < length (pool_pcs s) \<and> pool_pcs s ! i \<noteq> AtEnd \<and> i < length msgs \<and>
       message_step h wk (msgs ! i) (pool_pcs s ! i) (po_world s) = (p, w') \<and>
       pool_pcs s' = (pool_pcs s)[i := p] \<and> po_world s' = w')"
  using assms(2)
proof (cases rule: pool_step.cases)
  case (spawn m ms)
  then show ?thesis by (simp add: pool_pcs_def)
next
  case (run i m p p' w')
  have "msgs = map fst (po_gos s) @ po_todo s" using assms(1) by (simp add: pool_inv_def)
  then have "msgs ! i = m" "i < length msgs" using run by (simp_all add: nth_append)
  moreover have "pool_pcs s' = (pool_pcs s)[i := p']"
    using pool_pcs_update [OF run(2,3), of "Busy p'"] run(1) by (simp add: pool_pcs_def)
  moreover have "i < length (pool_pcs s)" "pool_pcs s ! i = p" "po_world s' = w'"
    using run pool_pcs_nth [OF run(2,3)] by (simp_all add: pool_pcs_def)
  ultimately show ?thesis using run(4,5) by blast
next
  case (receive i m)
  then show ?thesis using pool_pcs_update [OF receive(2,3), of Received] pool_pcs_nth [OF receive(2,3)]
    by (simp add: pool_pcs_def) (metis list_update_id)
next
  case (wg_done i m)
  then show ?thesis using pool_pcs_update [OF wg_done(2,3), of Exited] pool_pcs_nth [OF wg_done(2,3)]
    by (simp add: pool_pcs_def) (metis list_update_id)
qed (simp_all add: pool_pcs_def)

lemma pool_simulated:
  fixes msgs wk
  defines "ts \<equiv> map (Pair wk) msgs"
  shows "pool_reach h wk mc (start_pool msgs w) n s \<Longrightarrow>
    \<exists>k rs. system_reach h ts (start_system ts w) k \<lparr>sy_pcs = pool_pcs s, sy_world = po_world s, sy_runs = rs\<rparr>"
proof (induction "start_pool msgs w" n s rule: pool_reach.induct)
  case pool_refl
  have "pool_pcs (start_pool msgs w) = replicate (length ts) AtIsDone" "po_world (start_pool msgs w) = w"
    by (simp_all add: pool_pcs_def start_pool_def ts_def)
  then show ?case using reach_start [of h ts "start_system ts w"] by (auto simp: start_system_def)
next
  case (pool_next n s' s'')
  then obtain k rs where r: "system_reach h ts (start_system ts w) k \<lparr>sy_pcs = pool_pcs s', sy_world = po_world s', sy_runs = rs\<rparr>"
    by blast
  from pool_step_simulated [OF pool_reach_inv [OF pool_next(1)] pool_next(3)] show ?case
  proof (elim disjE exE conjE)
    fix i p w'
    assume "i < length (pool_pcs s')" "pool_pcs s' ! i \<noteq> AtEnd" "i < length msgs"
      "message_step h wk (msgs ! i) (pool_pcs s' ! i) (po_world s') = (p, w')"
      "pool_pcs s'' = (pool_pcs s')[i := p]" "po_world s'' = w'"
    then show ?thesis using reach_goroutine [OF r, of i p w'] by (auto simp: ts_def)
  qed (use r in auto)
qed

text \<open>A pool that has returned has run every goroutine to its end.\<close>

lemma returned_pcs:
  assumes "pool_inv msgs s" and "slots_inv wk s" and "po_main s = Returned"
  shows "pool_pcs s = replicate (length msgs) AtEnd"
  using pool_complete [OF assms] assms by (simp add: pool_pcs_def slots_inv_def comp_def map_replicate_const)

section \<open>Outcome of an interleaving\<close>

context worker_services
begin

text \<open>The effect of one step on the completion markers and the outstanding messages.\<close>

lemma step_marks:
  assumes "message_step h wk m p w = (p', w')" and "p \<noteq> AtEnd"
  shows "finished w' = (if p = AtMark then insert (event_id m) (finished w) else finished w) \<and>
    unacked w' = (if p = AtAck then unacked w - {rm_ID m} else unacked w) \<and>
    (p = AtIsDone \<longrightarrow> p' = (if event_id m \<in> finished w then AtAck else AtClaim)) \<and>
    (p = AtProcess \<longrightarrow> p' = (if good (rm_Event m) then AtMark else AtRelease))"
proof (cases p)
  case AtIsDone
  then show ?thesis using assms(1) query_law [of "event_id m" w] query_quiet [of "event_id m" w]
    by (auto simp: message_step_def uses_store split: bool.splits)
next
  case AtClaim
  then show ?thesis
    using assms(1) claim_law [OF lock_ttl, of "event_id m" w] claim_quiet [of "event_id m" "w_lockTTL wk" w]
    by (auto simp: message_step_def uses_store split: bool.splits)
next
  case AtProcess
  obtain r w1 where r: "ProcessSingleEvent h wk (rm_Event m) w = (r, w1)" by force
  then show ?thesis using AtProcess assms(1) pipeline_law [OF r] by (auto simp: message_step_def split: sum.splits)
next
  case AtRelease
  then show ?thesis using assms(1) release_law [of "event_id m" w] release_quiet [of "event_id m" w]
    by (auto simp: message_step_def release_lock_def uses_store)
next
  case AtMark
  then show ?thesis using assms(1) done_law [OF done_ttl, of "event_id m" w] mark_quiet [of "event_id m" "w_doneTTL wk" w]
    by (auto simp: message_step_def mark_done_def uses_store)
next
  case AtAck
  then show ?thesis using assms(1) ack_law [of m w] by (auto simp: message_step_def)
qed (use assms in simp)

end

context shared_services
begin

abbreviation msg :: "nat \<Rightarrow> RawMessage" where
  "msg i \<equiv> snd (ts ! i)"

lemma goroutine_marks:
  assumes "i < length ts" and "message_step h (fst (ts ! i)) (msg i) p w = (p', w')" and "p \<noteq> AtEnd"
  shows "finished w' = (if p = AtMark then insert (ev i) (finished w) else finished w)"
    and "unacked w' = (if p = AtAck then unacked w - {rm_ID (msg i)} else unacked w)"
    and "p = AtIsDone \<longrightarrow> p' = (if ev i \<in> finished w then AtAck else AtClaim)"
    and "p = AtProcess \<longrightarrow> p' = (if good (rm_Event (msg i)) then AtMark else AtRelease)"
  using worker_services.step_marks [OF services [OF assms(1)] assms(2,3)] unfolding thread_event_def by blast+

text \<open>
  What holds of a goroutine's event where it stands, when no other goroutine has that event and
  no lock is stale.
\<close>

definition place :: "nat \<Rightarrow> pc \<Rightarrow> 'w \<Rightarrow> bool" where
  "place i p w \<longleftrightarrow> (case p of
       AtIsDone \<Rightarrow> ev i \<in> locked w \<longrightarrow> ev i \<in> finished w
     | AtClaim \<Rightarrow> ev i \<notin> locked w
     | AtRelease \<Rightarrow> \<not> good (rm_Event (msg i))
     | AtAck \<Rightarrow> ev i \<in> finished w
     | AtEnd \<Rightarrow> good (rm_Event (msg i)) \<longrightarrow> ev i \<in> finished w \<and> rm_ID (msg i) \<notin> unacked w
     | _ \<Rightarrow> True)"

lemma place_step:
  assumes "i < length ts" and "message_step h (fst (ts ! i)) (msg i) p w = (p', w')" and "p \<noteq> AtEnd" and "place i p w"
  shows "place i p' w'"
  using goroutine_locks [OF assms(1-3)] goroutine_marks [OF assms(1-3)] assms(4)
  by (elim disjE; auto simp: place_def split: if_splits)

lemma place_frame:
  assumes "i < length ts" and "message_step h (fst (ts ! i)) (msg i) p w = (p', w')" and "p \<noteq> AtEnd"
    and "ev j \<noteq> ev i" and "place j q w"
  shows "place j q w'"
  using locks_facts(1) [OF assms(1-4)] goroutine_marks(1,2) [OF assms(1-3)] assms(4,5)
  by (cases q) (auto simp: place_def split: if_splits)

lemma places:
  assumes "system_reach h ts (start_system ts w) n s" and "locked w \<subseteq> finished w"
    and "\<And>i j. i < length ts \<Longrightarrow> j < length ts \<Longrightarrow> ev i = ev j \<Longrightarrow> i = j"
  shows "length (sy_pcs s) = length ts \<and> (\<forall>i < length ts. place i (sy_pcs s ! i) (sy_world s))"
  using assms(1)
proof (induction "start_system ts w" n s rule: system_reach.induct)
  case reach_start
  show ?case using assms(2) by (auto simp: start_system_def place_def)
next
  case (reach_step n s' s'')
  note ih = reach_step(2)
  from reach_step(3) show ?case
  proof (cases rule: system_step.cases)
    case (goroutine i p w')
    then have i: "i < length ts" using ih by simp
    have "place j (sy_pcs s'' ! j) w'" if "j < length ts" for j
    proof (cases "j = i")
      case True
      then show ?thesis using place_step [OF i goroutine(4,3)] ih i goroutine(1,2) by simp
    next
      case False
      then have "ev j \<noteq> ev i" using assms(3) that i by blast
      then show ?thesis using place_frame [OF i goroutine(4,3)] ih that goroutine(1) False by simp
    qed
    then show ?thesis using ih goroutine(1) by simp
  qed
qed

text \<open>A message leaves the outstanding set only with its event completed; no hypothesis on the events.\<close>

lemma acked_finished:
  assumes "system_reach h ts (start_system ts w) n s"
  shows "length (sy_pcs s) = length ts \<and> (\<forall>i < length ts. sy_pcs s ! i = AtAck \<longrightarrow> ev i \<in> finished (sy_world s)) \<and>
    (\<forall>x \<in> unacked w - unacked (sy_world s). \<exists>i < length ts. rm_ID (msg i) = x \<and> ev i \<in> finished (sy_world s))"
  using assms
proof (induction "start_system ts w" n s rule: system_reach.induct)
  case reach_start
  show ?case by (simp add: start_system_def)
next
  case (reach_step n s' s'')
  note ih = reach_step(2)
  from reach_step(3) show ?case
  proof (cases rule: system_step.cases)
    case (goroutine i p w')
    then have i: "i < length ts" "length (sy_pcs s') = length ts" using ih by simp_all
    note g = goroutine_marks(1,2) [OF i(1) goroutine(4,3)] goroutine_marks(3) [OF i(1) goroutine(4,3)]
    have mono: "finished (sy_world s') \<subseteq> finished w'" using g(1) by auto
    have new: "ev i \<in> finished w'" if "p = AtAck \<or> sy_pcs s' ! i = AtAck"
      using that goroutine_locks [OF i(1) goroutine(4,3)] g ih i by (elim disjE; auto split: if_splits)
    have "ev j \<in> finished w'" if "j < length ts" "(sy_pcs s')[i := p] ! j = AtAck" for j
      using that new ih mono i by (cases "j = i") auto
    moreover have "\<exists>j < length ts. rm_ID (msg j) = x \<and> ev j \<in> finished w'" if "x \<in> unacked w" "x \<notin> unacked w'" for x
    proof (cases "x \<in> unacked (sy_world s')")
      case True
      then have "sy_pcs s' ! i = AtAck" "rm_ID (msg i) = x" using that(2) g(2) by (auto split: if_splits)
      then show ?thesis using new i by blast
    next
      case False
      then show ?thesis using ih mono that(1) by blast
    qed
    ultimately show ?thesis using i unfolding goroutine(1) by simp
  qed
qed

end

section \<open>Outcome of a batch\<close>

context worker_services
begin

lemma same_worker: "shared_services st locked finished frees h (map (Pair wk) ms) unacked good"
  by (rule shared_services.intro) (simp add: worker_services_axioms)

lemma pool_outcome:
  assumes "pool_reach h wk False (start_pool ms w) n s" and "po_main s = Returned" and "0 < w_concurrency wk"
    and "locked w \<subseteq> finished w" and "distinct (map event_id ms)"
  shows "(\<forall>m \<in> set ms. good (rm_Event m) \<longrightarrow> event_id m \<in> finished (po_world s) \<and> rm_ID m \<notin> unacked (po_world s)) \<and>
    (\<forall>x \<in> unacked w - unacked (po_world s). \<exists>m \<in> set ms. rm_ID m = x \<and> event_id m \<in> finished (po_world s))"
proof -
  let ?ts = "map (Pair wk) ms"
  obtain k rs where r: "system_reach h ?ts (start_system ?ts w) k \<lparr>sy_pcs = pool_pcs s, sy_world = po_world s, sy_runs = rs\<rparr>"
    using pool_simulated [OF assms(1)] by blast
  have e: "pool_pcs s = replicate (length ms) AtEnd"
    using returned_pcs [OF pool_reach_inv [OF assms(1)] pool_reach_slots [OF assms(1)] assms(2)] assms(3) by simp
  have inj: "i = j" if "i < length ms" "j < length ms" "event_id (ms ! i) = event_id (ms ! j)" for i j
    using assms(5) that nth_eq_iff_index_eq [of "map event_id ms" i j] by simp
  have "event_id m \<in> finished (po_world s) \<and> rm_ID m \<notin> unacked (po_world s)" if m: "m \<in> set ms" "good (rm_Event m)" for m
  proof -
    obtain i where i: "i < length ms" "ms ! i = m" using m(1) by (auto simp: in_set_conv_nth)
    have "shared_services.place locked finished ?ts unacked good i AtEnd (po_world s)"
      using shared_services.places [OF same_worker r assms(4)] inj e i(1) by (simp add: thread_event_def)
    then show ?thesis
      using m(2) i by (simp add: shared_services.place_def [OF same_worker] thread_event_def)
  qed
  moreover have "\<exists>m \<in> set ms. rm_ID m = x \<and> event_id m \<in> finished (po_world s)" if x: "x \<in> unacked w - unacked (po_world s)" for x
  proof -
    obtain i where "i < length ms" "rm_ID (snd (?ts ! i)) = x" "event_id (snd (?ts ! i)) \<in> finished (po_world s)"
      using shared_services.acked_finished [OF same_worker r, THEN conjunct2, THEN conjunct2, THEN bspec, of x] x
      by (auto simp: thread_event_def)
    then show ?thesis by auto
  qed
  ultimately show ?thesis by blast
qed

theorem batch_outcome:
  assumes "processMessages h wk False ms w w'" and "\<And>w. fst (ctx_Err h w) = None"
    and "locked w \<subseteq> finished w" and "distinct (map event_id ms)"
  shows "(\<forall>m \<in> set ms. good (rm_Event m) \<longrightarrow> event_id m \<in> finished w' \<and> rm_ID m \<notin> unacked w') \<and>
    (\<forall>x \<in> unacked w - unacked w'. \<exists>m \<in> set ms. rm_ID m = x \<and> event_id m \<in> finished w')"
  using assms(1)
proof (cases rule: processMessages.cases)
  case sequential
  have v: "completed (view x) = finished x" "outstanding (view x) = unacked x" "held (view x) = locked x" for x
    by (simp_all add: view_def)
  have "view w' = ledger_batch frees good ms (view w)" using sequential(1) sequential_refines_all [OF assms(2)] by simp
  then show ?thesis
    using ledger_batch_good [of "view w" _ ms good frees] ledger_batch_safe [of _ "view w" frees good ms] assms(3)
    by (metis (no_types, lifting) DiffE v)
next
  case (parallel n s)
  then show ?thesis using pool_outcome [OF parallel(4,5) _ assms(3,4)] by simp
qed simp

text \<open>The pool starts a goroutine, which claims its event.\<close>

lemma pool_first_claims:
  assumes "event_id m \<notin> locked w" and "event_id m \<notin> finished w" and "1 < w_concurrency wk"
  shows "\<exists>w'. pool_reach h wk mc (start_pool (m # ms) w) 5
    \<lparr>po_todo = ms, po_gos = [(m, Busy AtProcess)], po_sem = 1, po_wg = 1, po_main = AtCheck, po_cancelled = False, po_world = w'\<rparr>"
proof -
  obtain w1 where w1: "message_step h wk m AtIsDone w = (AtClaim, w1)" "locked w1 = locked w" using step_moves(1) assms(2) by blast
  obtain w2 where w2: "message_step h wk m AtClaim w1 = (AtProcess, w2)" using step_moves(2) [of m w1] w1 assms(1) by auto
  let ?s = "start_pool (m # ms) w"
  note r = pool_next [OF pool_refl check_go [of ?s]]
  note r = pool_next [OF r select_token]
  note r = pool_next [OF r spawn [of _ m ms]]
  note r = pool_next [OF r run [of 0 _ m AtIsDone h wk AtClaim w1]]
  note r = pool_next [OF r run [of 0 _ m AtClaim h wk AtProcess w2]]
  show ?thesis using r [of mc] w1(1) w2 assms(3) by (auto simp: start_pool_def eval_nat_numeral)
qed

end

end
