(* ===== verification/Production.thy ===== *)
theory Production
  imports Pipeline Worker_Batch
begin

text \<open>
  The assembled worker on a cluster of a Redis server and an object store: it keeps the
  ledger contract of \<open>Worker_Contract\<close>, alone and beside others.
\<close>

section \<open>Services of the assembled worker\<close>

lemma production_fields:
  "w_idempotency (production_worker pf rdb st cs env) = Some (redis_idempotency rdb)"
  "w_rawStore (production_worker pf rdb st cs env) = Some st"
  "w_buffer (production_worker pf rdb st cs env) = redis_raw_buffer (NewRedisRawBuffer rdb (stream_max_len env))"
  by (simp_all add: production_worker_def NewWorker_def)

section \<open>A cluster\<close>

text \<open>A Redis server, its clock, and an object store in one world.\<close>

record cluster = keyspace +
  cl_objects :: object_map

definition on_objects :: "(object_map \<Rightarrow> 'b \<times> object_map) \<Rightarrow> cluster \<Rightarrow> 'b \<times> cluster" where
  "on_objects f c = (case f (cl_objects c) of (r, m) \<Rightarrow> (r, c\<lparr>cl_objects := m\<rparr>))"

definition cluster_minio :: "cluster minio_client" where
  "cluster_minio =
     \<lparr>PutObject = \<lambda>b n d. on_objects (PutObject map_client b n d),
      GetObject = \<lambda>b n. on_objects (GetObject map_client b n),
      ReadObject = \<lambda>b n. on_objects (ReadObject map_client b n),
      BucketExists = \<lambda>b. on_objects (BucketExists map_client b),
      MakeBucket = \<lambda>b. on_objects (MakeBucket map_client b)\<rparr>"

interpretation cluster_bucket: object_bucket cluster_minio bucket "\<lambda>c n. cl_objects c (bucket, n)" for bucket
  by unfold_locales (auto simp: cluster_minio_def on_objects_def map_client_def split: option.splits)

definition cluster_store :: "string \<Rightarrow> cluster RawEventStore" where
  "cluster_store bucket = minio_raw_store \<lparr>ms_client = cluster_minio, ms_bucket = bucket\<rparr>"

lemma cluster_put_keeps_server:
  "ks_keys (snd (rs_Put (cluster_store b) ev c)) = ks_keys c \<and>
   ks_streams (snd (rs_Put (cluster_store b) ev c)) = ks_streams c \<and>
   ks_now (snd (rs_Put (cluster_store b) ev c)) = ks_now c"
  by (auto simp: cluster_store_def minio_raw_store_def minio_Put_def cluster_minio_def on_objects_def map_client_def
      split: option.splits prod.splits)

text \<open>Positive time-to-live values; the products must not wrap (292 years are the limit).\<close>

definition safe_ttls :: "environ \<Rightarrow> bool" where
  "safe_ttls env \<longleftrightarrow> c_LockTTLSeconds (worker_config env) \<le> 9223372036 \<and> c_DoneTTLSeconds (worker_config env) \<le> 9223372036"

lemma wrap64_seconds: "0 < n \<Longrightarrow> n \<le> 9223372036 \<Longrightarrow> wrap64 (n * Second) = n * Second"
  by (rule wrap64_id) (simp add: in_int64_def Second_def)

lemma production_ttls:
  assumes "safe_ttls env"
  shows "0 < w_lockTTL (production_worker pf rdb st cs env)" "0 < w_doneTTL (production_worker pf rdb st cs env)"
  using assms wrap64_seconds [of "positive_or (c_LockTTLSeconds (worker_config env)) defaultLockTTLSeconds"]
    wrap64_seconds [of "positive_or (c_DoneTTLSeconds (worker_config env)) defaultDoneTTLSeconds"]
  by (simp_all add: production_worker_def NewWorker_def safe_ttls_def positive_or_def defaultLockTTLSeconds_def
      defaultDoneTTLSeconds_def Second_def split: if_splits)

section \<open>The worker on the cluster\<close>

text \<open>A host on which no time passes while messages are processed, so no key expires.\<close>

definition steady_host :: "'a keyspace_scheme host" where
  "steady_host = keyspace_host
     \<lparr>event_readings := \<lambda>s. (fst (event_readings keyspace_host s), s), time_Now := \<lambda>s. (ks_now s, s)\<rparr>"

definition cluster_worker :: "platform \<Rightarrow> compiled_schema \<Rightarrow> environ \<Rightarrow> cluster Worker" where
  "cluster_worker pf cs env = production_worker pf keyspace_client (cluster_store (mc_BucketName (minio_config env))) cs env"

definition unacked_ids :: "environ \<Rightarrow> cluster \<Rightarrow> string set" where
  "unacked_ids env c = xm_ID ` set (ks_pending (raw_stream_name env) (c_GroupName (worker_config env)) c)"

definition key_locked :: "cluster \<Rightarrow> string set" where
  "key_locked c = {e. ks_has c (DefaultProcKeyPrefix @ e)}"

definition key_finished :: "cluster \<Rightarrow> string set" where
  "key_finished c = {e. ks_has c (DefaultDoneKeyPrefix @ e)}"

lemma ks_has_cong: "ks_keys c = ks_keys c' \<Longrightarrow> ks_now c = ks_now c' \<Longrightarrow> ks_has c = ks_has c'"
  unfolding ks_has_def by (simp add: fun_eq_iff split: option.split)

lemma unacked_cong: "ks_streams c = ks_streams c' \<Longrightarrow> unacked_ids env c = unacked_ids env c'"
  by (simp add: unacked_ids_def ks_pending_def ks_stream_def)

lemma production_names:
  "w_streamName (production_worker pf rdb st cs env) = raw_stream_name env"
  "w_groupName (production_worker pf rdb st cs env) = c_GroupName (worker_config env)"
  "or_default (raw_stream_name env) DefaultRawStreamName = raw_stream_name env"
  "or_default (c_GroupName (worker_config env)) DefaultGroupName = c_GroupName (worker_config env)"
  by (simp_all add: production_worker_def NewWorker_def worker_config_def raw_stream_name_def or_default_def Let_def)

lemma cluster_process_state:
  assumes "ProcessSingleEvent steady_host (cluster_worker pf cs env) ev c = (r, c')"
  shows "ks_keys c' = ks_keys c" "ks_streams c' = ks_streams c" "ks_now c' = ks_now c"
    and "isl r \<longleftrightarrow> \<not> processable pf ev"
  using assms cluster_put_keeps_server [of "mc_BucketName (minio_config env)" "Some ev" c]
  by (auto simp: ProcessSingleEvent_def cluster_worker_def store_raw_def production_fields steady_host_def keyspace_host_def
      pipeline_error [OF production_worker_stages])

lemma ks_ack_pending:
  "ks_pending n g (snd (ks_ack n g ids c)) = filter (\<lambda>m. xm_ID m \<notin> set ids) (ks_pending n g c)"
  by (auto simp: ks_ack_def ks_pending_def Let_def filter_map comp_def case_prod_unfold split: option.splits)

lemma ks_ack_keys: "ks_keys (snd (ks_ack n g ids c)) = ks_keys c" "ks_now (snd (ks_ack n g ids c)) = ks_now c"
  by (auto simp: ks_ack_def ks_put_def Let_def split: option.splits)

lemma cluster_ack:
  "unacked_ids env (ack (cluster_worker pf cs env) m c) = unacked_ids env c - {rm_ID m}"
  "key_locked (ack (cluster_worker pf cs env) m c) = key_locked c"
  "key_finished (ack (cluster_worker pf cs env) m c) = key_finished c"
proof -
  let ?n = "raw_stream_name env" and ?g = "c_GroupName (worker_config env)"
  have a: "ack (cluster_worker pf cs env) m c = snd (ks_ack ?n ?g [rm_ID m] c)"
    by (simp add: ack_def cluster_worker_def production_fields production_names redis_raw_buffer_def redis_Ack_def
        NewRedisRawBuffer_def keyspace_client_def split: prod.split)
  have "ks_has (snd (ks_ack ?n ?g [rm_ID m] c)) = ks_has c" by (rule ks_has_cong) (simp_all add: ks_ack_keys)
  then show "unacked_ids env (ack (cluster_worker pf cs env) m c) = unacked_ids env c - {rm_ID m}"
    "key_locked (ack (cluster_worker pf cs env) m c) = key_locked c"
    "key_finished (ack (cluster_worker pf cs env) m c) = key_finished c"
    by (auto simp: a unacked_ids_def ks_ack_pending key_locked_def key_finished_def)
qed

lemma keyspace_idempotency: "idempotency_store (redis_idempotency keyspace_client) key_locked key_finished False"
  using keyspace.idem.idempotency_store_axioms
  by (simp add: keyspace.redis_locked_def [abs_def] keyspace.redis_finished_def [abs_def] ks_live_def
      key_locked_def [abs_def] key_finished_def [abs_def])

lemma redis_ops_streams:
  "ks_streams (snd (TryClaimProcessing (redis_idempotency keyspace_client) e ttl c)) = ks_streams c"
  "ks_streams (snd (ReleaseProcessing (redis_idempotency keyspace_client) e c)) = ks_streams c"
  "ks_streams (snd (MarkDone (redis_idempotency keyspace_client) e ttl c)) = ks_streams c"
  "ks_streams (snd (IsDone (redis_idempotency keyspace_client) e c)) = ks_streams c"
  by (simp_all add: redis_idempotency_def redis_TryClaim_def redis_Release_def redis_MarkDone_def redis_IsDone_def
      keyspace_client_def)

text \<open>The assembled worker keeps the ledger contract.\<close>

lemma production_services:
  assumes "safe_ttls env"
  shows "worker_services (redis_idempotency keyspace_client) key_locked key_finished False steady_host
    (cluster_worker pf cs env) (unacked_ids env) (processable pf)"
proof (rule worker_services.intro [OF keyspace_idempotency], unfold_locales)
  fix ev w r w'
  assume p: "ProcessSingleEvent steady_host (cluster_worker pf cs env) ev w = (r, w')"
  note c = cluster_process_state [OF p]
  have "ks_has w' = ks_has w" by (rule ks_has_cong) (simp_all add: c)
  then show "(isl r \<longleftrightarrow> \<not> processable pf ev) \<and> key_locked w' = key_locked w \<and> key_finished w' = key_finished w \<and>
      unacked_ids env w' = unacked_ids env w"
    using c(4) unacked_cong [OF c(2)] by (simp add: key_locked_def key_finished_def)
qed (use production_ttls [OF assms] in
      \<open>simp_all add: cluster_ack cluster_ack [unfolded cluster_worker_def] cluster_worker_def production_fields unacked_cong [OF redis_ops_streams(1)]
        unacked_cong [OF redis_ops_streams(2)] unacked_cong [OF redis_ops_streams(3)]
        unacked_cong [OF redis_ops_streams(4)] steady_host_def keyspace_host_def\<close>)

definition ledger_view :: "environ \<Rightarrow> cluster \<Rightarrow> ledger" where
  "ledger_view env c = \<lparr>held = key_locked c, completed = key_finished c, outstanding = unacked_ids env c\<rparr>"

lemma cluster_refines:
  assumes "safe_ttls env"
  shows "ledger_view env (processSingleMessageIdempotent steady_host (cluster_worker pf cs env) m c) =
    ledger_process False (processable pf) m (ledger_view env c)"
  using worker_services.refines [OF production_services [OF assms]]
  unfolding ledger_view_def worker_services.view_def [OF production_services [OF assms]] .

lemma cluster_batch_refines:
  assumes "safe_ttls env"
  shows "ledger_view env (process_sequential steady_host (cluster_worker pf cs env) ms c) =
    ledger_batch False (processable pf) ms (ledger_view env c)"
  using worker_services.sequential_refines_all [OF production_services [OF assms]]
  unfolding ledger_view_def worker_services.view_def [OF production_services [OF assms]]
  by (simp add: steady_host_def keyspace_host_def)

definition empty_environ :: environ where
  "empty_environ v = []"

lemma empty_environ_safe: "safe_ttls empty_environ"
  by (simp add: safe_ttls_def worker_config_def Let_def empty_environ_def parse_int64_lax_def)

interpretation default_worker: worker_services "redis_idempotency keyspace_client" key_locked key_finished False
  steady_host "cluster_worker pf cs empty_environ" "unacked_ids empty_environ" "processable pf" for pf cs
  by (rule production_services [OF empty_environ_safe])

section \<open>Several goroutines and workers on the cluster\<close>

definition cluster_threads :: "platform \<Rightarrow> compiled_schema \<Rightarrow> environ \<Rightarrow> RawMessage list \<Rightarrow> cluster thread list" where
  "cluster_threads pf cs env ms = map (Pair (cluster_worker pf cs env)) ms"

lemma production_shared:
  assumes "safe_ttls env"
  shows "shared_services (redis_idempotency keyspace_client) key_locked key_finished False steady_host
    (cluster_threads pf cs env ms) (unacked_ids env) (processable pf)"
  by (rule shared_services.intro) (simp add: cluster_threads_def production_services [OF assms])

interpretation default_threads: shared_services "redis_idempotency keyspace_client" key_locked key_finished False
  steady_host "cluster_threads pf cs empty_environ ms" "unacked_ids empty_environ" "processable pf" for pf cs ms
  by (rule shared_services.intro) (simp add: cluster_threads_def default_worker.worker_services_axioms)

lemma cluster_exclusive:
  assumes "safe_ttls env" and "system_reach steady_host (cluster_threads pf cs env ms) (start_system (cluster_threads pf cs env ms) c) n s"
    and "i < length ms" and "j < length ms" and "owner_pc (sy_pcs s ! i)" and "owner_pc (sy_pcs s ! j)"
    and "event_id (ms ! i) = event_id (ms ! j)"
  shows "i = j \<and> event_id (ms ! i) \<in> key_locked (sy_world s)"
  using shared_services.mutual_exclusion [OF production_shared [OF assms(1)] assms(2)] assms(3-7)
  unfolding shared_services.exclusive_def [OF production_shared [OF assms(1)]]
  by (auto simp: cluster_threads_def thread_event_def)

lemma cluster_at_most_once:
  assumes "safe_ttls env" and "system_reach steady_host (cluster_threads pf cs env ms) (start_system (cluster_threads pf cs env ms) c) n s"
  shows "distinct (map (thread_event (cluster_threads pf cs env ms)) (sy_runs s))"
  by (rule shared_services.at_most_once [OF production_shared [OF assms(1)] _ assms(2)]) simp

text \<open>The goroutines of a pool, cancelled or not, exclude each other.\<close>

lemma cluster_pool_exclusive:
  assumes "safe_ttls env" and "pool_reach steady_host (cluster_worker pf cs env) may_cancel (start_pool ms c) n s"
    and "i < length ms" and "j < length ms" and "owner_pc (pool_pcs s ! i)" and "owner_pc (pool_pcs s ! j)"
    and "event_id (ms ! i) = event_id (ms ! j)"
  shows "i = j \<and> event_id (ms ! i) \<in> key_locked (po_world s)"
proof -
  obtain k rs where "system_reach steady_host (cluster_threads pf cs env ms) (start_system (cluster_threads pf cs env ms) c) k
      \<lparr>sy_pcs = pool_pcs s, sy_world = po_world s, sy_runs = rs\<rparr>"
    using pool_simulated [OF assms(2)] unfolding cluster_threads_def by blast
  from cluster_exclusive [OF assms(1) this assms(3,4)] assms(5-7) show ?thesis by simp
qed

lemma cluster_processes_batch:
  assumes "safe_ttls env" and "processMessages steady_host (cluster_worker pf cs env) False ms c c'"
    and "key_locked c \<subseteq> key_finished c" and "distinct (map event_id ms)"
  shows "(\<forall>m \<in> set ms. processable pf (rm_Event m) \<longrightarrow> event_id m \<in> key_finished c' \<and> rm_ID m \<notin> unacked_ids env c') \<and>
    (\<forall>i \<in> unacked_ids env c - unacked_ids env c'. \<exists>m \<in> set ms. rm_ID m = i \<and> event_id m \<in> key_finished c')"
  by (rule worker_services.batch_outcome [OF production_services [OF assms(1)] assms(2) _ assms(3,4)])
    (simp add: steady_host_def keyspace_host_def)

end
