(* ===== verification/Local_Worker.thy ===== *)
theory Local_Worker
  imports Pipeline Worker_Concurrency
begin

text \<open>
  The worker on the in-memory idempotency store, as local development and the tests run it: it
  keeps the ledger contract, with completion freeing the lock.
\<close>

record local_world = MemoryIdempotencyStore +
  lw_unacked :: "string list"

text \<open>A buffer without a stream: only acknowledgement has an effect.\<close>

definition no_stream :: go_error where
  "no_stream = Errorf ''no stream''"

definition local_buffer :: "local_world RawBuffer" where
  "local_buffer =
     \<lparr>PublishRaw = \<lambda>s e w. (Inl no_stream, w), EnsureGroup = \<lambda>s g w. (None, w),
      ReadGroup = \<lambda>s g c n b w. (Inr [], w),
      Ack = \<lambda>s g ids w. (None, w\<lparr>lw_unacked := filter (\<lambda>i. i \<notin> set ids) (lw_unacked w)\<rparr>),
      ClaimPending = \<lambda>s g c t n w. (Inr [], w), Ping = \<lambda>w. (None, w), Close = \<lambda>w. (None, w)\<rparr>"

definition local_host :: "local_world host" where
  "local_host =
     \<lparr>next_uuid = Pair ''0'', wall_clock = Pair 0,
      event_readings = Pair \<lparr>parse_clock = \<lambda>_. 0, normalize_clock = \<lambda>_. 0, drawn_uuid = ''0''\<rparr>,
      ctx_Err = Pair None, time_Now = Pair 0, time_Sleep = \<lambda>d w. w\<rparr>"

definition zero_config :: Config where
  "zero_config = \<lparr>c_StreamName = [], c_GroupName = [], c_ConsumerName = [], c_ClaimIdleMs = 0, c_LockTTLSeconds = 0,
     c_DoneTTLSeconds = 0, c_BatchSize = 0, c_Concurrency = 0\<rparr>"

definition local_worker :: "platform \<Rightarrow> compiled_schema \<Rightarrow> local_world Worker" where
  "local_worker pf cs =
     NewWorker local_buffer (Some memory_idempotency) None (Detect (tables pf)) (Analyze (tables pf))
       (production_engine pf) (Validate cs) zero_config"

lemma default_ttls:
  "wrap64 (120 * Second) = 120 * Second" "wrap64 (86400 * Second) = 86400 * Second"
  by (rule wrap64_id; simp add: in_int64_def Second_def)+

lemma local_fields:
  "production_stages pf cs (local_worker pf cs)" "w_buffer (local_worker pf cs) = local_buffer"
  "w_idempotency (local_worker pf cs) = Some memory_idempotency" "w_rawStore (local_worker pf cs) = None"
  "w_lockTTL (local_worker pf cs) = 120 * Second" "w_doneTTL (local_worker pf cs) = 86400 * Second"
  by (simp_all add: production_stages_def local_worker_def NewWorker_def zero_config_def positive_or_def
      defaultLockTTLSeconds_def defaultDoneTTLSeconds_def default_ttls)

interpretation local: worker_services memory_idempotency memory_locked memory_finished True
  local_host "local_worker pf cs" "\<lambda>w. set (lw_unacked w)" "processable pf" for pf cs
proof
  show "(isl r \<longleftrightarrow> \<not> processable pf ev) \<and> memory_locked w' = memory_locked w \<and> memory_finished w' = memory_finished w \<and>
      set (lw_unacked w') = set (lw_unacked w)"
    if "ProcessSingleEvent local_host (local_worker pf cs) ev w = (r, w')" for ev w r w'
    using that by (auto simp: ProcessSingleEvent_def local_host_def store_raw_def local_fields pipeline_error [OF local_fields(1)])
qed (auto simp: local_fields Second_def memory_idempotency_def memory_TryClaim_def memory_Release_def memory_MarkDone_def
    memory_IsDone_def ack_def local_buffer_def memory_locked_def memory_finished_def local_host_def)

end
