(* ===== verification/Delivery.thy ===== *)
theory Delivery
  imports Production Worker_Loop
begin

text \<open>
  The two commands together on a cluster: what the ingestion service accepts, the next round of
  the worker completes; what a crashed worker left pending, a due reclaim completes; and what
  the lifetime of a processing lock means for both.
\<close>

section \<open>The stream of the worker\<close>

lemma ks_read_keys: "ks_read a c = (r, c') \<Longrightarrow> ks_keys c' = ks_keys c \<and> ks_now c' = ks_now c"
  by (auto simp: ks_read_def ks_put_def Let_def split: list.splits option.splits if_splits)

lemma ks_autoclaim_keys: "ks_autoclaim a c = (r, c') \<Longrightarrow> ks_keys c' = ks_keys c \<and> ks_now c' = ks_now c"
  by (auto simp: ks_autoclaim_def ks_put_def Let_def split: option.splits prod.splits)

text \<open>Reading and reclaiming change neither the keys nor the time.\<close>

lemma buffer_keeps_keys:
  "ks_keys (snd (ReadGroup (redis_raw_buffer (NewRedisRawBuffer keyspace_client m)) s g k x b c)) = ks_keys c"
  "ks_now (snd (ReadGroup (redis_raw_buffer (NewRedisRawBuffer keyspace_client m)) s g k x b c)) = ks_now c"
  "ks_keys (snd (ClaimPending (redis_raw_buffer (NewRedisRawBuffer keyspace_client m)) s g k b x c)) = ks_keys c"
  "ks_now (snd (ClaimPending (redis_raw_buffer (NewRedisRawBuffer keyspace_client m)) s g k b x c)) = ks_now c"
  by (auto simp: redis_raw_buffer_def NewRedisRawBuffer_def redis_ReadGroup_def redis_ClaimPending_def keyspace_client_def Let_def
      split: prod.splits sum.splits dest!: ks_read_keys ks_autoclaim_keys)

lemma key_sets_cong:
  "ks_keys c = ks_keys c' \<Longrightarrow> ks_now c = ks_now c' \<Longrightarrow> key_locked c = key_locked c' \<and> key_finished c = key_finished c'"
  using ks_has_cong [of c c'] by (simp add: key_locked_def key_finished_def)

lemma cluster_batch_size: "0 < w_batchSize (cluster_worker pf cs env)"
  by (simp add: cluster_worker_def production_worker_def NewWorker_def positive_or_def defaultBatchSize_def)

lemma steady_calls:
  "ctx_Err steady_host c = (None, c)" "time_Now steady_host c = (ks_now c, c)"
  by (simp_all add: steady_host_def keyspace_host_def)

text \<open>A batch processor that behaves as \<open>processMessages\<close> of the worker, whatever the schedule.\<close>

definition runs_batches :: "cluster Worker \<Rightarrow> (RawMessage list \<Rightarrow> cluster \<Rightarrow> cluster) \<Rightarrow> bool" where
  "runs_batches wk batch \<longleftrightarrow> (\<forall>ms c. processMessages steady_host wk False ms c (batch ms c))"

lemma runs_batches_exists: "\<exists>batch. runs_batches wk batch"
  unfolding runs_batches_def using processMessages_total [of steady_host wk] by metis

section \<open>New messages\<close>

text \<open>A round in which no reclaim is due reads and processes what is waiting.\<close>

lemma round_reads:
  fixes pf cs env and c :: cluster
  defines "wk \<equiv> cluster_worker pf cs env" and "n \<equiv> raw_stream_name env" and "g \<equiv> c_GroupName (worker_config env)"
  assumes "ks_ready n g c" and "ks_now c \<le> t"
  obtains c' where "loop_round steady_host wk batch (t, c) =
      Inl (t, batch (parse_messages (take (nat (w_batchSize wk)) (ks_fresh n g c))) c')"
    and "key_locked c' = key_locked c" and "key_finished c' = key_finished c"
    and "ks_pending n g c' = ks_pending n g c @ take (nat (w_batchSize wk)) (ks_fresh n g c)"
proof -
  have w: "w_buffer wk = redis_raw_buffer (NewRedisRawBuffer keyspace_client (stream_max_len env))"
    "w_streamName wk = n" "w_groupName wk = g" "or_default n DefaultRawStreamName = n" "or_default g DefaultGroupName = g"
    by (simp_all add: wk_def cluster_worker_def production_fields production_names n_def g_def)
  define r where "r = ReadGroup (w_buffer wk) n g (w_consumerName wk) (w_batchSize wk) (2 * Second) c"
  have f: "fst r = Inr (parse_messages (take (nat (w_batchSize wk)) (ks_fresh n g c)))"
    "ks_pending n g (snd r) = ks_pending n g c @ take (nat (w_batchSize wk)) (ks_fresh n g c)"
    using keyspace_stream.read_fresh [OF assms(4) w(4,5), of "w_batchSize wk" "stream_max_len env" "w_consumerName wk" "2 * Second"]
      cluster_batch_size [of pf cs env] unfolding r_def w wk_def [symmetric] by auto
  have k: "ks_keys (snd r) = ks_keys c" "ks_now (snd r) = ks_now c"
    by (simp_all add: r_def w(1) buffer_keeps_keys)
  show thesis
  proof (rule that)
    show "loop_round steady_host wk batch (t, c) =
        Inl (t, batch (parse_messages (take (nat (w_batchSize wk)) (ks_fresh n g c))) (snd r))"
      using f assms(5) by (cases r) (simp add: loop_round_def claim_step_def steady_calls r_def w(2,3))
  qed (use key_sets_cong [OF k] f(2) in auto)
qed

text \<open>
  The outcome of a round for every entry it reads: a decodable one is processed, a malformed one
  (foreign to the program) stays pending, since it is never acknowledged.
\<close>

lemma parse_messages_from:
  assumes "m \<in> set (parse_messages xs)"
  obtains x where "x \<in> set xs" and "parseXMessage x = Some m" and "xm_ID x = rm_ID m"
proof -
  obtain x where x: "x \<in> set xs" "parseXMessage x = Some m" using assms by (auto simp: parse_messages_def map_filter_def)
  moreover from x(2) have "xm_ID x = rm_ID m"
    by (auto simp: parseXMessage_def split: option.splits redis_value.splits sum.splits)
  ultimately show thesis using that by blast
qed

lemma parse_messages_in: "x \<in> set xs \<Longrightarrow> parseXMessage x = Some m \<Longrightarrow> m \<in> set (parse_messages xs)"
  by (force simp: parse_messages_def map_filter_def)

lemma round_outcome:
  fixes pf cs env and c :: cluster
  defines "wk \<equiv> cluster_worker pf cs env" and "n \<equiv> raw_stream_name env" and "g \<equiv> c_GroupName (worker_config env)"
  defines "xs \<equiv> take (nat (w_batchSize wk)) (ks_fresh n g c)"
  assumes "safe_ttls env" and "runs_batches wk batch" and "ks_ready n g c" and "ks_now c \<le> t"
    and "key_locked c \<subseteq> key_finished c" and "distinct (map event_id (parse_messages xs))" and "distinct (map xm_ID xs)"
  shows "\<exists>c2. loop_round steady_host wk batch (t, c) = Inl (t, c2) \<and>
    (\<forall>x \<in> set xs. case parseXMessage x of
       None \<Rightarrow> xm_ID x \<in> unacked_ids env c2
     | Some m \<Rightarrow> processable pf (rm_Event m) \<longrightarrow> event_id m \<in> key_finished c2 \<and> xm_ID x \<notin> unacked_ids env c2)"
proof -
  obtain c' where c': "loop_round steady_host wk batch (t, c) = Inl (t, batch (parse_messages xs) c')"
      "key_locked c' = key_locked c" "key_finished c' = key_finished c" "ks_pending n g c' = ks_pending n g c @ xs"
    using round_reads [of env c t pf cs batch thesis] assms(7,8) unfolding wk_def n_def g_def xs_def by metis
  let ?c2 = "batch (parse_messages xs) c'"
  have "processMessages steady_host (cluster_worker pf cs env) False (parse_messages xs) c' ?c2"
    using assms(6) by (simp add: runs_batches_def wk_def)
  from cluster_processes_batch [OF assms(5) this] have b:
    "\<forall>m \<in> set (parse_messages xs). processable pf (rm_Event m) \<longrightarrow> event_id m \<in> key_finished ?c2 \<and> rm_ID m \<notin> unacked_ids env ?c2"
    "\<forall>i \<in> unacked_ids env c' - unacked_ids env ?c2. \<exists>m \<in> set (parse_messages xs). rm_ID m = i \<and> event_id m \<in> key_finished ?c2"
    using assms(9,10) c'(2,3) by simp_all
  have "case parseXMessage x of None \<Rightarrow> xm_ID x \<in> unacked_ids env ?c2
     | Some m \<Rightarrow> processable pf (rm_Event m) \<longrightarrow> event_id m \<in> key_finished ?c2 \<and> xm_ID x \<notin> unacked_ids env ?c2" if x: "x \<in> set xs" for x
  proof (cases "parseXMessage x")
    case (Some m)
    then have "xm_ID x = rm_ID m" by (auto simp: parseXMessage_def split: option.splits redis_value.splits sum.splits)
    then show ?thesis using b(1) parse_messages_in [OF x Some] Some by simp
  next
    case None
    have "xm_ID x \<in> unacked_ids env c'" using c'(4) x by (simp add: unacked_ids_def n_def g_def)
    moreover have "rm_ID m \<noteq> xm_ID x" if "m \<in> set (parse_messages xs)" for m
      using that None x assms(11) by (elim parse_messages_from) (metis distinct_map inj_onD option.distinct(1))
    ultimately show ?thesis using b(2) None by auto
  qed
  then show ?thesis using c'(1) by blast
qed

text \<open>A request the service accepts appends one entry to the stream.\<close>

lemma raw_stream_nonempty: "raw_stream_name env \<noteq> []"
  by (simp add: raw_stream_name_def or_default_def DefaultRawStreamName_def)

lemma accepted_published:
  fixes env :: environ and c :: cluster and g :: string
  defines "n \<equiv> raw_stream_name env"
  assumes "serve (ingestion_main (\<lambda>_ _ _. keyspace_client) keyspace_host env) ''POST'' ''/ingest'' body c = Some (r, c1)"
    and "rp_Status r = StatusAccepted" and "ks_ready n g c"
  obtains req e i where "decode_request body = Inr req" and "made_from req e"
    and "rp_Body r = IngestBody \<lparr>ir_EventID = re_EventID e, ir_Status = ''accepted''\<rparr>"
    and "ks_ready n g c1" and "trimmed (stream_max_len env) (ks_fresh n g c @ [published_entry i e]) (ks_fresh n g c1)" and "ks_pending n g c1 = ks_pending n g c"
proof -
  let ?svc = "NewService (Some (redis_raw_buffer (NewRedisRawBuffer keyspace_client (stream_max_len env)))) n"
  have "HandleIngest (ingestion_service keyspace_host ?svc) body c = (r, c1)"
    using assms(2) by (simp add: serve_def ingestion_main_def n_def Let_def)
  then obtain req id where req: "decode_request body = Inr req" "service_Ingest keyspace_host ?svc req c = (Inr id, c1)"
      "rp_Body r = IngestBody \<lparr>ir_EventID = id, ir_Status = ''accepted''\<rparr>"
    using assms(3) by (auto simp: HandleIngest_def ingestion_service_def writeJSONError_def json_response_def StatusAccepted_def
        StatusBadRequest_def StatusInternalServerError_def split: sum.splits if_splits prod.splits)
  obtain e c0 where e: "new_raw_event keyspace_host req c = (e, c0)" by force
  have q: "ks_ready n g c0" "ks_fresh n g c0 = ks_fresh n g c" "ks_pending n g c0 = ks_pending n g c"
    using keyspace_ingestion.new_event_quiet [OF e] assms(4) by auto
  have n: "or_default n DefaultRawStreamName = n" "n \<noteq> []" using raw_stream_nonempty [of env] by (auto simp: n_def or_default_def)
  obtain i c2 where b: "buffer_event ?svc e c0 = (None, c2)" "ks_ready n g c2"
      "trimmed (stream_max_len env) (ks_fresh n g c0 @ [published_entry i e]) (ks_fresh n g c2)" "ks_pending n g c2 = ks_pending n g c0"
    using keyspace_ingestion.buffer_event_fresh [OF q(1) n, of "stream_max_len env" e] by auto
  then have "c2 = c1" "id = re_EventID e" using req(2) e by (auto simp: service_Ingest_def split: if_splits)
  then show thesis using that req new_raw_event_made [OF e] b q by metis
qed

text \<open>
  An accepted event is completed by the next round, if the events that wait before it fit into
  the same batch.
\<close>

lemma accepted_completed:
  fixes pf cs env and c c1 :: cluster
  defines "wk \<equiv> cluster_worker pf cs env" and "n \<equiv> raw_stream_name env" and "g \<equiv> c_GroupName (worker_config env)"
  assumes "safe_ttls env" and "runs_batches wk batch" and "ks_ready n g c"
    and "serve (ingestion_main (\<lambda>_ _ _. keyspace_client) keyspace_host env) ''POST'' ''/ingest'' body c = Some (r, c1)"
    and "rp_Status r = StatusAccepted"
    and "int (length (ks_fresh n g c)) < w_batchSize wk" and "distinct (map event_id (parse_messages (ks_fresh n g c1)))"
    and "key_locked c1 \<subseteq> key_finished c1" and "ks_now c1 \<le> t"
  shows "\<exists>req e m c2. decode_request body = Inr req \<and> made_from req e \<and>
    m \<in> set (parse_messages (ks_fresh n g c1)) \<and> rm_Event m = coerce_raw_event e \<and>
    rp_Body r = IngestBody \<lparr>ir_EventID = re_EventID e, ir_Status = ''accepted''\<rparr> \<and>
    loop_round steady_host wk batch (t, c1) = Inl (t, c2) \<and>
    (processable pf (rm_Event m) \<longrightarrow> event_id m \<in> key_finished c2 \<and> rm_ID m \<notin> unacked_ids env c2)"
proof -
  obtain req e i where a: "decode_request body = Inr req" "made_from req e"
      "rp_Body r = IngestBody \<lparr>ir_EventID = re_EventID e, ir_Status = ''accepted''\<rparr>"
      "ks_ready n g c1" "trimmed (stream_max_len env) (ks_fresh n g c @ [published_entry i e]) (ks_fresh n g c1)"
    using accepted_published [OF assms(7,8), of g] assms(6) unfolding n_def by metis
  let ?m = "\<lparr>rm_ID = i, rm_Event = coerce_raw_event e\<rparr>" and ?ms = "parse_messages (ks_fresh n g c1)"
  have t: "take (nat (w_batchSize wk)) (ks_fresh n g c1) = ks_fresh n g c1" using assms(9) trimmed_length [OF a(5)] by simp
  obtain zs where "ks_fresh n g c1 = zs @ [published_entry i e]" using trimmed_last [OF a(5)] by blast
  then have m: "?m \<in> set ?ms" by simp
  obtain c' where c': "loop_round steady_host wk batch (t, c1) = Inl (t, batch ?ms c')"
      "key_locked c' = key_locked c1" "key_finished c' = key_finished c1"
    using round_reads [of env c1 t pf cs batch thesis] a(4) assms(12) t unfolding wk_def n_def g_def by metis
  have "processMessages steady_host (cluster_worker pf cs env) False ?ms c' (batch ?ms c')"
    using assms(5) by (simp add: runs_batches_def wk_def)
  from cluster_processes_batch [OF assms(4) this] have
    "processable pf (rm_Event ?m) \<longrightarrow> event_id ?m \<in> key_finished (batch ?ms c') \<and> rm_ID ?m \<notin> unacked_ids env (batch ?ms c')"
    using assms(10,11) c'(2,3) m by auto
  then show ?thesis using a(1-3) c'(1) m
    by (intro exI [of _ req] exI [of _ e] exI [of _ ?m] exI [of _ "batch ?ms c'"]) simp
qed

section \<open>Crash recovery\<close>

text \<open>
  A reclaim looks at the first ten pending entries for every one it may take.  The messages it
  may take: idle long enough, and still in the stream.
\<close>

definition scanned :: "cluster Worker \<Rightarrow> (XMessage \<times> int) list \<Rightarrow> (XMessage \<times> int) list" where
  "scanned wk pel = take (nat (10 * w_batchSize wk)) pel"

definition idle_long :: "cluster Worker \<Rightarrow> cluster \<Rightarrow> int \<Rightarrow> bool" where
  "idle_long wk c t \<longleftrightarrow> w_claimIdleTime wk \<le> ks_now c - t"

definition orphans :: "cluster Worker \<Rightarrow> redis_stream_state \<Rightarrow> cluster \<Rightarrow> (XMessage \<times> int) list \<Rightarrow> XMessage list" where
  "orphans wk x c pel = map fst (filter (\<lambda>(y, t). in_stream x y \<and> idle_long wk c t) (scanned wk pel))"

lemma reclaim_takes_orphans:
  fixes pf cs env and c :: cluster
  defines "wk \<equiv> cluster_worker pf cs env" and "n \<equiv> raw_stream_name env" and "g \<equiv> c_GroupName (worker_config env)"
  defines "x \<equiv> ks_stream c n"
  assumes "0 < w_claimIdleTime wk" and "t < ks_now c" and "sm_groups x g = Some (pos, pel)"
    and "int (length (filter (\<lambda>(y, t). \<not> in_stream x y \<or> idle_long wk c t) (scanned wk pel))) \<le> w_batchSize wk"
  obtains c' where "claim_step steady_host wk batch t c = (ks_now c + w_claimIdleTime wk div 2,
      if parse_messages (orphans wk x c pel) = [] then c' else batch (parse_messages (orphans wk x c pel)) c')"
    and "key_locked c' = key_locked c" and "key_finished c' = key_finished c"
    and "\<forall>i \<in> unacked_ids env c - unacked_ids env c'. \<exists>y \<in> fst ` set pel. xm_ID y = i \<and> \<not> in_stream x y"
proof -
  let ?b = "redis_raw_buffer (NewRedisRawBuffer keyspace_client (stream_max_len env))"
  have w: "w_buffer wk = ?b" "w_streamName wk = n" "w_groupName wk = g"
    "or_default n DefaultRawStreamName = n" "or_default g DefaultGroupName = g"
    by (simp_all add: wk_def cluster_worker_def production_fields production_names n_def g_def)
  define r where "r = ClaimPending ?b n g (w_consumerName wk) (w_claimIdleTime wk) (w_batchSize wk) c"
  obtain ms pel' where p: "claim_scan (in_stream x) (ks_now c) (w_claimIdleTime wk) (nat (10 * w_batchSize wk)) (nat (w_batchSize wk)) pel =
      (ms, pel')" by force
  have len: "length (filter (\<lambda>(y, t). \<not> in_stream x y \<or> w_claimIdleTime wk \<le> ks_now c - t) (take (nat (10 * w_batchSize wk)) pel)) \<le> nat (w_batchSize wk)"
    using assms(8) unfolding idle_long_def scanned_def by linarith
  have ms: "ms = orphans wk x c pel" using claim_scan_all(1) [OF p len] by (simp add: orphans_def scanned_def idle_long_def)
  note left = claim_scan_all(2) [OF p len]
  have f: "fst r = Inr (parse_messages (orphans wk x c pel))" "ks_pending n g (snd r) = map fst pel'"
    using assms(7) p ms unfolding x_def by (simp_all add: r_def redis_raw_buffer_def NewRedisRawBuffer_def redis_ClaimPending_def
        keyspace_client_def ks_autoclaim_def w(4,5) ks_pending_def Let_def)
  have k: "ks_keys (snd r) = ks_keys c" "ks_now (snd r) = ks_now c" by (simp_all add: r_def buffer_keeps_keys)
  have u: "\<exists>y \<in> fst ` set pel. xm_ID y = i \<and> \<not> in_stream x y" if i: "i \<in> unacked_ids env c" "i \<notin> unacked_ids env (snd r)" for i
  proof -
    have "i \<in> xm_ID ` set (map fst pel)" using i(1) assms(7) by (simp add: unacked_ids_def ks_pending_def x_def n_def g_def)
    then obtain y where y: "y \<in> set (map fst pel)" "xm_ID y = i" by blast
    have "y \<notin> set (map fst pel')" using i(2) y(2) f(2) by (auto simp: unacked_ids_def n_def g_def)
    moreover have "y \<in> set (map fst (take (nat (10 * w_batchSize wk)) pel)) \<or> y \<in> set (map fst (drop (nat (10 * w_batchSize wk)) pel))"
      using y(1) by (metis Un_iff append_take_drop_id map_append set_append)
    ultimately have "\<not> in_stream x y" unfolding left by auto
    then show ?thesis using y by auto
  qed
  show thesis
  proof (rule that)
    show "claim_step steady_host wk batch t c = (ks_now c + w_claimIdleTime wk div 2,
      if parse_messages (orphans wk x c pel) = [] then snd r else batch (parse_messages (orphans wk x c pel)) (snd r))"
      using f(1) assms(5,6) by (cases r) (simp add: claim_step_def steady_calls w(1-3) r_def Let_def)
    show "\<forall>i \<in> unacked_ids env c - unacked_ids env (snd r). \<exists>y \<in> fst ` set pel. xm_ID y = i \<and> \<not> in_stream x y"
      using u by blast
  qed (use key_sets_cong [OF k] in auto)
qed

lemma orphans_recovered:
  fixes pf cs env and c :: cluster
  defines "wk \<equiv> cluster_worker pf cs env" and "n \<equiv> raw_stream_name env" and "g \<equiv> c_GroupName (worker_config env)"
  defines "x \<equiv> ks_stream c n"
  assumes "safe_ttls env" and "runs_batches wk batch" and "0 < w_claimIdleTime wk" and "t < ks_now c"
    and "sm_groups x g = Some (pos, pel)"
    and "int (length (filter (\<lambda>(y, t). \<not> in_stream x y \<or> idle_long wk c t) (scanned wk pel))) \<le> w_batchSize wk"
    and "key_locked c \<subseteq> key_finished c" and "distinct (map event_id (parse_messages (orphans wk x c pel)))"
  shows "\<exists>c'. claim_step steady_host wk batch t c = (ks_now c + w_claimIdleTime wk div 2, c') \<and>
    (\<forall>m \<in> set (parse_messages (orphans wk x c pel)). processable pf (rm_Event m) \<longrightarrow>
       event_id m \<in> key_finished c' \<and> rm_ID m \<notin> unacked_ids env c') \<and>
    (\<forall>i \<in> unacked_ids env c - unacked_ids env c'.
       (\<exists>m \<in> set (parse_messages (orphans wk x c pel)). rm_ID m = i \<and> event_id m \<in> key_finished c') \<or>
       (\<exists>y \<in> fst ` set pel. xm_ID y = i \<and> \<not> in_stream x y))"
proof -
  let ?ms = "parse_messages (orphans wk x c pel)"
  obtain c' where c': "claim_step steady_host wk batch t c =
      (ks_now c + w_claimIdleTime wk div 2, if ?ms = [] then c' else batch ?ms c')"
      "key_locked c' = key_locked c" "key_finished c' = key_finished c"
      "\<forall>i \<in> unacked_ids env c - unacked_ids env c'. \<exists>y \<in> fst ` set pel. xm_ID y = i \<and> \<not> in_stream x y"
    using reclaim_takes_orphans [of pf cs env t c pos pel batch thesis] assms(7-10) unfolding wk_def n_def g_def x_def by blast
  show ?thesis
  proof (cases "?ms = []")
    case True
    then show ?thesis using c' by simp
  next
    case False
    have "processMessages steady_host (cluster_worker pf cs env) False ?ms c' (batch ?ms c')"
      using assms(6) by (simp add: runs_batches_def wk_def)
    from cluster_processes_batch [OF assms(5) this] have b:
      "\<forall>m \<in> set ?ms. processable pf (rm_Event m) \<longrightarrow> event_id m \<in> key_finished (batch ?ms c') \<and> rm_ID m \<notin> unacked_ids env (batch ?ms c')"
      "\<forall>i \<in> unacked_ids env c' - unacked_ids env (batch ?ms c'). \<exists>m \<in> set ?ms. rm_ID m = i \<and> event_id m \<in> key_finished (batch ?ms c')"
      using assms(11,12) c'(2,3) by simp_all
    have "(\<exists>m \<in> set ?ms. rm_ID m = i \<and> event_id m \<in> key_finished (batch ?ms c')) \<or> (\<exists>y \<in> fst ` set pel. xm_ID y = i \<and> \<not> in_stream x y)"
      if "i \<in> unacked_ids env c - unacked_ids env (batch ?ms c')" for i
      using that b(2) c'(4) by (cases "i \<in> unacked_ids env c'") (simp, blast)
    then show ?thesis using c'(1) False b(1) by simp
  qed
qed

section \<open>Lifetime of a processing lock\<close>

text \<open>\<open>d\<close> nanoseconds later, with no other change.\<close>

definition time_passes :: "duration \<Rightarrow> cluster \<Rightarrow> cluster" where
  "time_passes d c = c\<lparr>ks_now := ks_now c + d\<rparr>"

abbreviation claim_lock :: "string \<Rightarrow> duration \<Rightarrow> cluster \<Rightarrow> bool result \<times> cluster" where
  "claim_lock \<equiv> redis_TryClaim keyspace_client"

abbreviation free_lock :: "string \<Rightarrow> cluster \<Rightarrow> go_error option \<times> cluster" where
  "free_lock \<equiv> redis_Release keyspace_client"

lemma claim_keyspace:
  "claim_lock e ttl c = (Inr (e \<notin> key_locked c),
     if e \<in> key_locked c then c else c\<lparr>ks_keys := (ks_keys c)(DefaultProcKeyPrefix @ e \<mapsto> (''1'', ks_now c + ttl))\<rparr>)"
  by (simp add: redis_TryClaim_def keyspace_client_def key_locked_def)

lemma lock_expires:
  assumes "e \<notin> key_locked c"
  shows "e \<in> key_locked (time_passes d (snd (claim_lock e ttl c))) \<longleftrightarrow> d < ttl"
  using assms by (simp add: claim_keyspace time_passes_def key_locked_def ks_has_def)

lemma not_finished_later: "0 \<le> d \<Longrightarrow> e \<notin> key_finished c \<Longrightarrow> e \<notin> key_finished (time_passes d (snd (claim_lock f ttl c)))"
  by (auto simp: claim_keyspace time_passes_def key_finished_def ks_has_def key_prefixes_differ [symmetric] split: option.splits)

text \<open>A redelivery is in vain until the lock of the worker that crashed expires.\<close>

lemma redelivery_after_crash:
  fixes pf cs env m d and c :: cluster
  defines "wk \<equiv> cluster_worker pf cs env"
  defines "c1 \<equiv> time_passes d (snd (claim_lock (event_id m) (w_lockTTL wk) c))"
  defines "c2 \<equiv> processSingleMessageIdempotent steady_host wk m c1"
  assumes "safe_ttls env" and "event_id m \<notin> key_locked c" and "event_id m \<notin> key_finished c" and "0 \<le> d"
  shows "if d < w_lockTTL wk then ledger_view env c2 = ledger_view env c1
    else processable pf (rm_Event m) \<longrightarrow> event_id m \<in> key_finished c2 \<and> rm_ID m \<notin> unacked_ids env c2"
proof -
  let ?l = "ledger_view env c1"
  have l: "event_id m \<in> held ?l \<longleftrightarrow> d < w_lockTTL wk" "event_id m \<notin> completed ?l"
    using lock_expires [OF assms(5)] not_finished_later [OF assms(7,6)] by (simp_all add: ledger_view_def c1_def)
  have r: "ledger_view env c2 = ledger_process False (processable pf) m ?l"
    unfolding c2_def wk_def by (rule cluster_refines [OF assms(4)])
  show ?thesis
  proof (cases "d < w_lockTTL wk")
    case True
    then show ?thesis using l r by (simp add: ledger_process_def)
  next
    case False
    have "event_id m \<in> completed (ledger_view env c2) \<and> rm_ID m \<notin> outstanding (ledger_view env c2)" if "processable pf (rm_Event m)"
      using l False that unfolding r by (simp add: ledger_process_def)
    then show ?thesis using False by (simp add: ledger_view_def)
  qed
qed

text \<open>A release does not ask who holds the lock.\<close>

lemma stale_release:
  assumes "0 < ttl" and "ttl \<le> d" and "e \<notin> key_locked c"
  defines "c1 \<equiv> time_passes d (snd (claim_lock e ttl c))"
  shows "fst (claim_lock e ttl c1) = Inr True \<and> e \<in> key_locked (snd (claim_lock e ttl c1)) \<and>
    fst (claim_lock e ttl (snd (free_lock e (snd (claim_lock e ttl c1))))) = Inr True"
  using lock_expires [OF assms(3), of d ttl] assms(1,2) idempotency_store.claim_law [OF keyspace_idempotency assms(1), of e c1]
    idempotency_store.reclaim [OF keyspace_idempotency assms(1)] by (auto simp: c1_def redis_idempotency_def)

end
