(* ===== verification/Commands.thy ===== *)
theory Commands
  imports Programs Worker_Loop
begin

text \<open>
  The runs of the two commands: \<open>cmd/ingestion/main.go\<close> from the first ping to the closing of
  the client, and \<open>cmd/worker/main.go\<close> from the wait for Redis to the deferred calls.
\<close>

section \<open>Ingestion\<close>

record http_request =
  hq_Method :: string
  hq_Path :: string
  hq_Body :: string

text \<open>
  The requests that arrive before the stop signal, one after the other; \<open>None\<close> stands for the
  mux's own answer.
\<close>

fun serve_all :: "'w Service \<Rightarrow> http_request list \<Rightarrow> 'w \<Rightarrow> response option list \<times> 'w" where
  "serve_all service [] w = ([], w)"
| "serve_all service (q # qs) w =
     (case serve service (hq_Method q) (hq_Path q) (hq_Body q) w of
        None \<Rightarrow> (case serve_all service qs w of (rs, w') \<Rightarrow> (None # rs, w'))
      | Some (r, w1) \<Rightarrow> (case serve_all service qs w1 of (rs, w') \<Rightarrow> (Some r # rs, w')))"

text \<open>How a command ends: by \<open>log.Fatalf\<close>, without its deferred calls, or by returning from \<open>main\<close>.\<close>

datatype ('r, 'w) command_end = Fatal go_error 'w | Finished 'r 'w

text \<open>
  \<open>listen addr\<close> is the start of the HTTP server on an address.  The failure of the first ping
  is only logged.
\<close>

definition ingestion_run ::
  "(string \<Rightarrow> string \<Rightarrow> int \<Rightarrow> 'w redis_client) \<Rightarrow> (string \<Rightarrow> 'w \<Rightarrow> go_error option \<times> 'w) \<Rightarrow> 'w host \<Rightarrow> environ \<Rightarrow>
   http_request list \<Rightarrow> 'w \<Rightarrow> (response option list, 'w) command_end" where
  "ingestion_run dial listen h getenv qs w =
     (let rdb = dial (redis_address getenv) (getenv ''REDIS_PASSWORD'') 0;
          rawBuffer = NewRedisRawBuffer rdb (stream_max_len getenv);
          (_, w1) = redis_Ping rawBuffer w;
          service = ingestion_main dial h getenv
      in case listen (CHR '':'' # ingestion_port getenv) w1 of
           (Some err, w2) \<Rightarrow> Fatal err w2
         | (None, w2) \<Rightarrow>
             (case serve_all service qs w2 of
                (rs, w3) \<Rightarrow> Finished rs (snd (redis_Close rawBuffer w3))))"

section \<open>Worker\<close>

text \<open>What the worker command gets from outside: the clients, its memory, the schema package.\<close>

record 'w externals =
  x_redis :: "string \<Rightarrow> string \<Rightarrow> int \<Rightarrow> 'w redis_client"
  x_minio :: "string \<Rightarrow> string \<Rightarrow> string \<Rightarrow> bool \<Rightarrow> 'w minio_client result"
  x_memory :: "('w \<Rightarrow> MemoryRawStore) \<times> (MemoryRawStore \<Rightarrow> 'w \<Rightarrow> 'w)"
  x_readFile :: "string \<Rightarrow> string result"
  x_embedded :: string
  x_addResource :: "string \<Rightarrow> go_error option"
  x_compile :: "string \<Rightarrow> compiled_schema result"

definition worker_redis :: "'w externals \<Rightarrow> environ \<Rightarrow> 'w redis_client" where
  "worker_redis ext getenv = x_redis ext (redis_address getenv) (getenv ''REDIS_PASSWORD'') 0"

definition worker_buffer :: "'w externals \<Rightarrow> environ \<Rightarrow> 'w RedisRawBuffer" where
  "worker_buffer ext getenv = NewRedisRawBuffer (worker_redis ext getenv) (stream_max_len getenv)"

definition worker_schema :: "'w externals \<Rightarrow> compiled_schema result" where
  "worker_schema ext = NewValidator (x_readFile ext) (x_embedded ext) (x_addResource ext) (x_compile ext) []"

text \<open>The deferred calls, last one first: the raw store, then the Redis client.\<close>

definition close_all :: "'w RawEventStore \<Rightarrow> 'w RedisRawBuffer \<Rightarrow> 'w \<Rightarrow> 'w" where
  "close_all rawStore rawBuffer w = snd (redis_Close rawBuffer (snd (rs_Close rawStore w)))"

text \<open>
  The command: \<open>None\<close> when it runs for ever.  \<open>batch\<close> is the processing of batches by the
  worker, as for \<open>Start\<close>; the host's context is the one the signal handler cancels.
\<close>

definition worker_main ::
  "'w externals \<Rightarrow> platform \<Rightarrow> 'w host \<Rightarrow> ('w Worker \<Rightarrow> RawMessage list \<Rightarrow> 'w \<Rightarrow> 'w) \<Rightarrow> environ \<Rightarrow> 'w \<Rightarrow>
   (go_error option, 'w) command_end option" where
  "worker_main ext pf h batch getenv w =
     (let rawBuffer = worker_buffer ext getenv in
      case await_redis h rawBuffer w of
        None \<Rightarrow> None
      | Some w1 \<Rightarrow>
          (case choose_raw_store (x_minio ext) (x_memory ext) getenv w1 of (rawStore, w2) \<Rightarrow>
             (case worker_schema ext of
                Inl err \<Rightarrow> Some (Fatal err w2)
              | Inr cs \<Rightarrow>
                  (let wk = production_worker pf (worker_redis ext getenv) rawStore cs getenv
                   in map_option (\<lambda>(err, w3). Finished err (close_all rawStore rawBuffer w3)) (Start h wk (batch wk) w2)))))"

section \<open>What a run of the ingestion command publishes\<close>

text \<open>The requests for events in an HTTP request the service accepts.\<close>

definition accepted_requests :: "http_request \<Rightarrow> IngestRequest list" where
  "accepted_requests q =
     (if hq_Method q \<noteq> ''POST'' then []
      else if hq_Path q = ''/ingest/batch'' then
        (case decode_batch (hq_Body q) of Inl _ \<Rightarrow> [] | Inr reqs \<Rightarrow> if first_empty 0 reqs = None then reqs else [])
      else if hq_Path q = ''/ingest'' then
        (case decode_request (hq_Body q) of Inl _ \<Rightarrow> [] | Inr req \<Rightarrow> if iq_Payload req = [] then [] else [req])
      else [])"

text \<open>The event ids a response hands out.\<close>

definition response_ids :: "response option \<Rightarrow> string list" where
  "response_ids r = (case r of
       None \<Rightarrow> []
     | Some x \<Rightarrow> (case rp_Body x of IngestBody b \<Rightarrow> [ir_EventID b] | BatchBody b \<Rightarrow> br_EventIDs b | _ \<Rightarrow> []))"

lemmas response_simps = response_ids_def writeJSONError_def json_response_def

text \<open>The answer of a handler to the outcome of the service.\<close>

definition answer :: "http_request \<Rightarrow> string list result \<Rightarrow> response" where
  "answer q outcome = (case outcome of
       Inl err \<Rightarrow> writeJSONError StatusInternalServerError ''ingestion_error'' err
     | Inr ids \<Rightarrow>
         json_response StatusAccepted
           (if hq_Path q = ''/ingest/batch''
            then BatchBody \<lparr>br_Status = ''accepted'', br_Count = int (length ids), br_EventIDs = ids\<rparr>
            else IngestBody \<lparr>ir_EventID = hd ids, ir_Status = ''accepted''\<rparr>))"

lemma ingest_as_loop:
  "iq_Payload req \<noteq> [] \<Longrightarrow> service_Ingest h sv req w =
     (case ingest_loop h sv [req] [] w of (Inl er, w') \<Rightarrow> (Inl er, w') | (Inr ids, w') \<Rightarrow> (Inr (hd ids), w'))"
  by (simp add: service_Ingest_def split: prod.split option.split)

text \<open>What the service does with accepted requests is the loop over them.\<close>

lemma serve_accepted:
  assumes "accepted_requests q \<noteq> []"
  shows "serve (ingestion_service h sv) (hq_Method q) (hq_Path q) (hq_Body q) w =
    (case ingest_loop h sv (accepted_requests q) [] w of (outcome, w') \<Rightarrow> Some (answer q outcome, w'))"
proof -
  consider (batch) reqs where "hq_Method q = ''POST''" "hq_Path q = ''/ingest/batch''" "decode_batch (hq_Body q) = Inr reqs"
      "first_empty 0 reqs = None" "accepted_requests q = reqs"
    | (one) req where "hq_Method q = ''POST''" "hq_Path q = ''/ingest''" "decode_request (hq_Body q) = Inr req"
      "iq_Payload req \<noteq> []" "accepted_requests q = [req]"
    using assms by (auto simp: accepted_requests_def split: if_splits sum.splits)
  then show ?thesis
  proof cases
    case batch
    then show ?thesis using assms
      by (simp add: serve_def HandleIngestBatch_def ingestion_service_def service_IngestBatch_def answer_def split: prod.split sum.split)
  next
    case one
    then show ?thesis
      by (simp del: ingest_loop.simps add: serve_def HandleIngest_def ingestion_service_def ingest_as_loop answer_def
          split: prod.split sum.split)
  qed
qed

text \<open>A request that is not accepted has no effect.\<close>

lemma serve_rejected:
  assumes "accepted_requests q = []" and "serve (ingestion_service h sv) (hq_Method q) (hq_Path q) (hq_Body q) w = Some (r, w')"
  shows "w' = w \<and> response_ids (Some r) = []"
  using assms
  by (auto simp: serve_def HandleIngest_def HandleIngestBatch_def HandleHealth_def accepted_requests_def response_simps
      split: sum.splits if_splits option.splits)

lemma answer_ids:
  assumes "accepted_requests q \<noteq> []" and "length ids = length (accepted_requests q)"
  shows "response_ids (Some (answer q (Inr ids))) = ids"
proof (cases "hq_Path q = ''/ingest/batch''")
  case False
  then have "length ids = 1" using assms by (auto simp: accepted_requests_def split: if_splits sum.splits)
  then obtain i where "ids = [i]" by (cases ids) auto
  then show ?thesis using False by (simp add: answer_def response_simps)
qed (simp add: answer_def response_simps)

context ingestion_stream
begin

text \<open>
  \<open>appended m reqs ids w w'\<close>: one event per request was published, in order, under these ids;
  trimming to \<open>m\<close> entries may have removed the oldest entries that were not read.
\<close>

definition appended :: "int \<Rightarrow> IngestRequest list \<Rightarrow> string list \<Rightarrow> 'w \<Rightarrow> 'w \<Rightarrow> bool" where
  "appended m reqs ids w w' \<longleftrightarrow> ready w' \<and> pending w' = pending w \<and>
     (\<exists>es xs. list_all2 made_from reqs es \<and> ids = map re_EventID es \<and> entries_of es xs \<and> trimmed m (fresh w @ xs) (fresh w'))"

lemma appended_none: "ready w \<Longrightarrow> appended m [] [] w w"
  by (auto simp: appended_def intro!: exI [of _ "[]"])

lemma appended_trans:
  assumes "appended m r1 i1 w1 w2" and "appended m r2 i2 w2 w3"
  shows "appended m (r1 @ r2) (i1 @ i2) w1 w3"
proof -
  obtain e1 x1 e2 x2 where x: "list_all2 made_from r1 e1" "i1 = map re_EventID e1" "entries_of e1 x1" "trimmed m (fresh w1 @ x1) (fresh w2)"
      "list_all2 made_from r2 e2" "i2 = map re_EventID e2" "entries_of e2 x2" "trimmed m (fresh w2 @ x2) (fresh w3)"
    using assms unfolding appended_def by blast
  then show ?thesis using assms trimmed_append [OF x(4,8)] unfolding appended_def
    by (intro conjI exI [of _ "e1 @ e2"] exI [of _ "x1 @ x2"]) (auto intro: list_all2_appendI entries_of_append)
qed

lemma loop_appends:
  assumes "ready w" and "or_default s DefaultRawStreamName = stream" and "stream \<noteq> []"
  shows "\<exists>ids w'. ingest_loop h (svc m s) reqs [] w = (Inr ids, w') \<and> appended m reqs ids w w'"
  using ingest_loop_fresh [OF assms, of m reqs "[]"] unfolding appended_def by fastforce

lemma serve_appends:
  assumes "ready w" and "or_default s DefaultRawStreamName = stream" and "stream \<noteq> []"
    and "serve (ingestion_service h (svc m s)) (hq_Method q) (hq_Path q) (hq_Body q) w = Some (r, w')"
  shows "appended m (accepted_requests q) (response_ids (Some r)) w w'"
proof (cases "accepted_requests q = []")
  case True
  then show ?thesis using serve_rejected [OF True assms(4)] appended_none [OF assms(1)] by simp
next
  case False
  obtain ids w1 where l: "ingest_loop h (svc m s) (accepted_requests q) [] w = (Inr ids, w1)" "appended m (accepted_requests q) ids w w1"
    using loop_appends [OF assms(1-3)] by blast
  have "response_ids (Some (answer q (Inr ids))) = ids"
    using answer_ids [OF False] ingest_loop_length [OF l(1)] by simp
  then show ?thesis using serve_accepted [OF False, of h "svc m s" w] l assms(4) by simp
qed

lemma serve_all_appends:
  assumes "ready w" and "or_default s DefaultRawStreamName = stream" and "stream \<noteq> []"
    and "serve_all (ingestion_service h (svc m s)) qs w = (rs, w')"
  shows "appended m (concat (map accepted_requests qs)) (concat (map response_ids rs)) w w' \<and> length rs = length qs"
  using assms(1,4)
proof (induction qs arbitrary: w rs)
  case Nil
  then show ?case by (simp add: appended_none)
next
  case (Cons q qs)
  let ?sv = "ingestion_service h (svc m s)"
  show ?case
  proof (cases "serve ?sv (hq_Method q) (hq_Path q) (hq_Body q) w")
    case None
    then have "accepted_requests q = []" by (auto simp: serve_def accepted_requests_def split: if_splits)
    moreover obtain rs1 where "rs = None # rs1" "serve_all ?sv qs w = (rs1, w')"
      using Cons.prems(2) None by (auto split: prod.splits)
    ultimately show ?thesis using Cons.IH [OF Cons.prems(1)] by (simp add: response_ids_def)
  next
    case (Some a)
    obtain r w1 where s: "serve ?sv (hq_Method q) (hq_Path q) (hq_Body q) w = Some (r, w1)" using Some by (cases a) simp
    obtain rs1 where rs1: "rs = Some r # rs1" "serve_all ?sv qs w1 = (rs1, w')"
      using Cons.prems(2) s by (auto split: prod.splits)
    have a: "appended m (accepted_requests q) (response_ids (Some r)) w w1"
      by (rule serve_appends [OF Cons.prems(1) assms(2,3) s])
    then have "ready w1" by (simp add: appended_def)
    from appended_trans [OF a conjunct1 [OF Cons.IH [OF this rs1(2)]]] Cons.IH [OF this rs1(2)] rs1(1)
    show ?thesis by simp
  qed
qed

end

text \<open>A run on a reachable server, with a listener that starts.\<close>

lemma ingestion_run_appends:
  fixes c :: "'a keyspace_scheme" and env :: environ
  defines "n \<equiv> raw_stream_name env"
  assumes "ks_ready n g c" and "listen (CHR '':'' # ingestion_port env) c = (None, c)"
  shows "\<exists>rs c'. ingestion_run (\<lambda>_ _ _. keyspace_client) listen keyspace_host env qs c = Finished rs c' \<and>
    length rs = length qs \<and> ks_pending n g c' = ks_pending n g c \<and>
    (\<exists>es xs. list_all2 made_from (concat (map accepted_requests qs)) es \<and>
       concat (map response_ids rs) = map re_EventID es \<and> entries_of es xs \<and>
       trimmed (stream_max_len env) (ks_fresh n g c @ xs) (ks_fresh n g c'))"
proof -
  let ?b = "NewRedisRawBuffer keyspace_client (stream_max_len env)"
  let ?sv = "ingestion_service keyspace_host (NewService (Some (redis_raw_buffer ?b)) n)"
  obtain rs c' where r: "serve_all ?sv qs c = (rs, c')" by force
  have "or_default n DefaultRawStreamName = n" "n \<noteq> []"
    by (simp_all add: n_def raw_stream_name_def or_default_def DefaultRawStreamName_def)
  from keyspace_ingestion.serve_all_appends [OF assms(2) this r]
  have a: "keyspace_ingestion.appended n g (stream_max_len env) (concat (map accepted_requests qs)) (concat (map response_ids rs)) c c'"
    "length rs = length qs" by auto
  have "redis_Ping ?b c = (None, c)" "snd (redis_Close ?b c') = c'"
    by (simp_all add: redis_Ping_def redis_Close_def NewRedisRawBuffer_def keyspace_client_def)
  then have "ingestion_run (\<lambda>_ _ _. keyspace_client) listen keyspace_host env qs c = Finished rs c'"
    using assms(3) r by (simp add: ingestion_run_def ingestion_main_def n_def Let_def)
  then show ?thesis using a unfolding keyspace_ingestion.appended_def by blast
qed

section \<open>How the worker command ends\<close>

lemma Start_returns_iff:
  "Start h wk batch w = Some (er, w') \<longleftrightarrow>
     (case EnsureGroup (w_buffer wk) (w_streamName wk) (w_groupName wk) w of
        (Some e, w1) \<Rightarrow> er = Some (Wrap ''failed to ensure consumer group'' e) \<and> w' = w1
      | (None, w1) \<Rightarrow> er = None \<and> (\<exists>k. rounds h wk batch k (loop_start h wk w1) = Inr w'))"
proof (cases "EnsureGroup (w_buffer wk) (w_streamName wk) (w_groupName wk) w")
  case (Pair g w1)
  then show ?thesis
    using worker_loop_iff [of h wk batch "fst (loop_start h wk w1)" "snd (loop_start h wk w1)" w']
    by (cases g) (auto simp: Start_loop)
qed

text \<open>
  The end of the command, exactly: after the first answer of Redis and the choice of the raw
  store, the schema, the consumer group or a round of the loop ends it.
\<close>

lemma worker_main_iff:
  "worker_main ext pf h batch env w = Some r \<longleftrightarrow>
   (\<exists>w1 st w2. await_redis h (worker_buffer ext env) w = Some w1 \<and>
      choose_raw_store (x_minio ext) (x_memory ext) env w1 = (st, w2) \<and>
      (case worker_schema ext of
         Inl err \<Rightarrow> r = Fatal err w2
       | Inr cs \<Rightarrow> (let wk = production_worker pf (worker_redis ext env) st cs env in
           case EnsureGroup (w_buffer wk) (w_streamName wk) (w_groupName wk) w2 of
             (Some e, w3) \<Rightarrow> r = Finished (Some (Wrap ''failed to ensure consumer group'' e))
                (close_all st (worker_buffer ext env) w3)
           | (None, w3) \<Rightarrow> \<exists>n w4. rounds h wk (batch wk) n (loop_start h wk w3) = Inr w4 \<and>
                r = Finished None (close_all st (worker_buffer ext env) w4))))"
proof (cases "await_redis h (worker_buffer ext env) w")
  case None
  then show ?thesis by (simp add: worker_main_def Let_def)
next
  case (Some w1)
  obtain st w2 where st: "choose_raw_store (x_minio ext) (x_memory ext) env w1 = (st, w2)" by force
  show ?thesis
  proof (cases "worker_schema ext")
    case (Inl err)
    then show ?thesis using Some st by (auto simp: worker_main_def Let_def)
  next
    case (Inr cs)
    let ?wk = "production_worker pf (worker_redis ext env) st cs env"
    have "worker_main ext pf h batch env w = Some r \<longleftrightarrow>
        (\<exists>er w'. Start h ?wk (batch ?wk) w2 = Some (er, w') \<and> r = Finished er (close_all st (worker_buffer ext env) w'))"
      using Some st Inr by (auto simp: worker_main_def Let_def)
    then show ?thesis using Some st Inr unfolding Start_returns_iff
      by (cases "EnsureGroup (w_buffer ?wk) (w_streamName ?wk) (w_groupName ?wk) w2")
        (auto simp: Let_def split: option.splits)
  qed
qed

text \<open>The choice of the raw store and the deferred calls, spelled out.\<close>

lemma choose_raw_store_iff:
  "choose_raw_store new cell env w = (st, w2) \<longleftrightarrow>
     (case NewMinIORawStore new (minio_config env) w of
        (Inl _, w1) \<Rightarrow> st = memory_store_in (fst cell) (snd cell) \<and> w2 = snd cell Map.empty w1
      | (Inr ms, w1) \<Rightarrow> st = minio_raw_store ms \<and> w2 = w1)"
  by (auto simp: choose_raw_store_def NewMemoryRawStore_def split: prod.split sum.split)

lemma close_all_calls:
  "close_all st (worker_buffer ext env) w = snd (RClose (worker_redis ext env) (snd (rs_Close st w)))"
  by (simp add: close_all_def redis_Close_def worker_buffer_def NewRedisRawBuffer_def split: prod.split)

section \<open>A node without MinIO\<close>

text \<open>The process and the Redis server it uses, with the memory of the in-memory raw store.\<close>

record node = keyspace +
  nd_memory :: MemoryRawStore

definition node_cell :: "(node \<Rightarrow> MemoryRawStore) \<times> (MemoryRawStore \<Rightarrow> node \<Rightarrow> node)" where
  "node_cell = (nd_memory, \<lambda>m s. s\<lparr>nd_memory := m\<rparr>)"

interpretation node_memory: memory_cell nd_memory "\<lambda>m s. s\<lparr>nd_memory := m\<rparr>"
  by unfold_locales simp_all

text \<open>Without MinIO the command goes on with an empty store in memory that keeps the store contract.\<close>

lemma fallback_store:
  assumes "is_err (fst (NewMinIORawStore new (minio_config env) w))" and "choose_raw_store new node_cell env w = (st, w')"
  shows "nd_memory w' = Map.empty" and "re_EventID e \<noteq> [] \<Longrightarrow> fst (rs_Get st (re_EventID e) (snd (rs_Put st (Some e) v))) = Inr e"
proof -
  have st: "st = memory_store_in nd_memory (\<lambda>m s. s\<lparr>nd_memory := m\<rparr>)" "nd_memory w' = Map.empty"
    using assms by (auto simp: choose_raw_store_def node_cell_def NewMemoryRawStore_def split: prod.splits sum.splits)
  then show "nd_memory w' = Map.empty" by simp
  show "fst (rs_Get st (re_EventID e) (snd (rs_Put st (Some e) v))) = Inr e" if "re_EventID e \<noteq> []"
    using node_memory.cell.put_then_get [OF that, of v] unfolding st(1)
    by (cases "rs_Put (memory_store_in nd_memory (\<lambda>m s. s\<lparr>nd_memory := m\<rparr>)) (Some e) v") auto
qed

end
