(* ===== verification/Ingestion_Concurrency.thy ===== *)
theory Ingestion_Concurrency
  imports Commands
begin

text \<open>
  HTTP requests in flight at the same time: \<open>net/http\<close> runs every handler in a goroutine of its
  own, so the events of several requests are drawn and published in any interleaving.
\<close>

section \<open>One handler\<close>

text \<open>
  The points at which a handler of \<open>handler.go\<close> can be interrupted: before it decodes its
  request, before it makes the next event, before it publishes an event, and after its answer.
  The list of ids is that of the events published so far.
\<close>

datatype handler_pc =
    Arrived
  | Drawing "IngestRequest list" "string list"
  | Publishing RawEvent "IngestRequest list" "string list"
  | Replied "response option"

definition handler_step ::
  "'w host \<Rightarrow> 'w IngestionService \<Rightarrow> http_request \<Rightarrow> handler_pc \<times> 'w \<Rightarrow> handler_pc \<times> 'w" where
  "handler_step h sv q s = (case s of
       (Arrived, w) \<Rightarrow>
         if accepted_requests q = []
         then (case serve (ingestion_service h sv) (hq_Method q) (hq_Path q) (hq_Body q) w of
                 None \<Rightarrow> (Replied None, w) | Some (r, w') \<Rightarrow> (Replied (Some r), w'))
         else (Drawing (accepted_requests q) [], w)
     | (Drawing [] ids, w) \<Rightarrow> (Replied (Some (answer q (Inr ids))), w)
     | (Drawing (r # rs) ids, w) \<Rightarrow> (case new_raw_event h r w of (e, w') \<Rightarrow> (Publishing e rs ids, w'))
     | (Publishing e rs ids, w) \<Rightarrow>
         (case buffer_event sv e w of
            (Some err, w') \<Rightarrow> (Replied (Some (answer q (Inl err))), w')
          | (None, w') \<Rightarrow> (Drawing rs (ids @ [re_EventID e]), w'))
     | (Replied r, w) \<Rightarrow> (Replied r, w))"

fun handler_steps :: "'w host \<Rightarrow> 'w IngestionService \<Rightarrow> http_request \<Rightarrow> nat \<Rightarrow> handler_pc \<times> 'w \<Rightarrow> handler_pc \<times> 'w" where
  "handler_steps h sv q 0 s = s"
| "handler_steps h sv q (Suc n) s = handler_steps h sv q n (handler_step h sv q s)"

lemma handler_steps_replied [simp]: "handler_steps h sv q n (Replied r, w) = (Replied r, w)"
  by (induction n) (simp_all add: handler_step_def)

lemma drawing_is_loop:
  "handler_steps h sv q (2 * length rs + 1) (Drawing rs ids, w) =
     (case ingest_loop h sv rs ids w of (outcome, w') \<Rightarrow> (Replied (Some (answer q outcome)), w'))"
proof (induction rs arbitrary: ids w)
  case Nil
  then show ?case by (simp add: handler_step_def)
next
  case (Cons r rs)
  obtain e w1 where e: "new_raw_event h r w = (e, w1)" by force
  obtain x w2 where x: "buffer_event sv e w1 = (x, w2)" by force
  show ?case using Cons [of "ids @ [re_EventID e]" w2] e x
    by (cases x) (simp_all add: handler_step_def)
qed

text \<open>Alone, the steps of a handler are the handler.\<close>

lemma handler_alone:
  "handler_steps h sv q (2 * length (accepted_requests q) + 2) (Arrived, w) =
     (case serve (ingestion_service h sv) (hq_Method q) (hq_Path q) (hq_Body q) w of
        None \<Rightarrow> (Replied None, w) | Some (r, w') \<Rightarrow> (Replied (Some r), w'))"
proof (cases "accepted_requests q = []")
  case True
  then show ?thesis by (simp add: handler_step_def numeral_2_eq_2 split: option.split)
next
  case False
  have "handler_steps h sv q (2 * length (accepted_requests q) + 2) (Arrived, w) =
      handler_steps h sv q (2 * length (accepted_requests q) + 1) (Drawing (accepted_requests q) [], w)"
    using False by (simp add: handler_step_def numeral_2_eq_2)
  then show ?thesis unfolding drawing_is_loop serve_accepted [OF False] by (simp split: prod.split)
qed

section \<open>Handlers interleaved\<close>

text \<open>The handlers of the requests in flight, the world, and the events published, each with its handler.\<close>

record 'w server =
  sv_pcs :: "handler_pc list"
  sv_world :: 'w
  sv_log :: "(nat \<times> RawEvent) list"

definition start_server :: "http_request list \<Rightarrow> 'w \<Rightarrow> 'w server" where
  "start_server qs w = \<lparr>sv_pcs = replicate (length qs) Arrived, sv_world = w, sv_log = []\<rparr>"

definition newly_published :: "nat \<Rightarrow> handler_pc \<Rightarrow> handler_pc \<Rightarrow> (nat \<times> RawEvent) list" where
  "newly_published i p p' = (case (p, p') of (Publishing e _ _, Drawing _ _) \<Rightarrow> [(i, e)] | _ \<Rightarrow> [])"

definition replied :: "handler_pc \<Rightarrow> bool" where
  "replied p = (case p of Replied _ \<Rightarrow> True | _ \<Rightarrow> False)"

inductive server_step :: "'w host \<Rightarrow> 'w IngestionService \<Rightarrow> http_request list \<Rightarrow> 'w server \<Rightarrow> 'w server \<Rightarrow> bool" for h sv qs where
  handler_moves: "i < length (sv_pcs s) \<Longrightarrow> \<not> replied (sv_pcs s ! i) \<Longrightarrow>
    handler_step h sv (qs ! i) (sv_pcs s ! i, sv_world s) = (p, w) \<Longrightarrow>
    server_step h sv qs s \<lparr>sv_pcs = (sv_pcs s)[i := p], sv_world = w, sv_log = sv_log s @ newly_published i (sv_pcs s ! i) p\<rparr>"

inductive_cases server_stepE: "server_step h sv qs s s'"

inductive server_reach :: "'w host \<Rightarrow> 'w IngestionService \<Rightarrow> http_request list \<Rightarrow> 'w server \<Rightarrow> nat \<Rightarrow> 'w server \<Rightarrow> bool" for h sv qs where
  server_refl: "server_reach h sv qs s 0 s"
| server_next: "server_reach h sv qs s n s' \<Longrightarrow> server_step h sv qs s' s'' \<Longrightarrow> server_reach h sv qs s (Suc n) s''"

text \<open>The events a handler has published so far, in order.\<close>

definition published_by :: "nat \<Rightarrow> (nat \<times> RawEvent) list \<Rightarrow> RawEvent list" where
  "published_by i evs = map snd (filter (\<lambda>x. fst x = i) evs)"

lemma published_by_append [simp]: "published_by i (xs @ ys) = published_by i xs @ published_by i ys"
  by (simp add: published_by_def)

lemma published_by_new [simp]:
  "published_by i [] = []" "published_by i [(j, e)] = (if j = i then [e] else [])"
  by (simp_all add: published_by_def)

lemma published_by_own: "published_by j (newly_published i p p') = (if j = i then map snd (newly_published i p p') else [])"
  by (simp add: newly_published_def split: handler_pc.split)

subsection \<open>Termination\<close>

definition handler_left :: "http_request \<Rightarrow> handler_pc \<Rightarrow> nat" where
  "handler_left q p = (case p of Arrived \<Rightarrow> 2 * length (accepted_requests q) + 2 | Drawing rs _ \<Rightarrow> 2 * length rs + 1
     | Publishing _ rs _ \<Rightarrow> 2 * length rs + 2 | Replied _ \<Rightarrow> 0)"

lemma handler_step_decreases:
  "\<not> replied p \<Longrightarrow> handler_step h sv q (p, w) = (p', w') \<Longrightarrow> handler_left q p' < handler_left q p"
  by (auto simp: handler_step_def handler_left_def replied_def split: handler_pc.splits list.splits if_splits option.splits prod.splits)

definition server_left :: "http_request list \<Rightarrow> 'w server \<Rightarrow> nat" where
  "server_left qs s = (\<Sum>i < length (sv_pcs s). handler_left (qs ! i) (sv_pcs s ! i))"

lemma server_step_decreases: "server_step h sv qs s s' \<Longrightarrow> server_left qs s' < server_left qs s"
proof (elim server_stepE)
  fix i p w
  assume i: "i < length (sv_pcs s)" "\<not> replied (sv_pcs s ! i)"
    and p: "handler_step h sv (qs ! i) (sv_pcs s ! i, sv_world s) = (p, w)"
    and s': "s' = \<lparr>sv_pcs = (sv_pcs s)[i := p], sv_world = w, sv_log = sv_log s @ newly_published i (sv_pcs s ! i) p\<rparr>"
  have "(\<Sum>j < length (sv_pcs s). handler_left (qs ! j) ((sv_pcs s)[i := p] ! j)) <
      (\<Sum>j < length (sv_pcs s). handler_left (qs ! j) (sv_pcs s ! j))"
    using handler_step_decreases [OF i(2) p] i(1)
    by (intro sum_strict_mono_ex1) (auto simp: nth_list_update intro!: bexI [of _ i])
  then show "server_left qs s' < server_left qs s" by (simp add: server_left_def s')
qed

lemma server_reach_bound: "server_reach h sv qs s n s' \<Longrightarrow> n + server_left qs s' \<le> server_left qs s"
  by (induction rule: server_reach.induct) (auto dest: server_step_decreases)

lemma server_progress: "(\<exists>p \<in> set (sv_pcs s). \<not> replied p) \<Longrightarrow> \<exists>s'. server_step h sv qs s s'"
  by (auto simp: in_set_conv_nth intro!: handler_moves) (metis handler_moves surj_pair)

subsection \<open>What is published\<close>

text \<open>What a handler has published agrees with the point it has reached.\<close>

definition handler_inv :: "http_request \<Rightarrow> handler_pc \<Rightarrow> RawEvent list \<Rightarrow> bool" where
  "handler_inv q p es = (case p of
       Arrived \<Rightarrow> es = []
     | Drawing rs ids \<Rightarrow> accepted_requests q \<noteq> [] \<and> ids = map re_EventID es \<and>
         (\<exists>qs. accepted_requests q = qs @ rs \<and> list_all2 made_from qs es)
     | Publishing e rs ids \<Rightarrow> ids = map re_EventID es \<and>
         (\<exists>qs r. accepted_requests q = qs @ r # rs \<and> made_from r e \<and> list_all2 made_from qs es)
     | Replied r \<Rightarrow> list_all2 made_from (accepted_requests q) es \<and> response_ids r = map re_EventID es)"

context ingestion_stream
begin

definition server_inv :: "int \<Rightarrow> http_request list \<Rightarrow> 'w \<Rightarrow> 'w server \<Rightarrow> bool" where
  "server_inv m qs w0 s \<longleftrightarrow> length (sv_pcs s) = length qs \<and> ready (sv_world s) \<and> pending (sv_world s) = pending w0 \<and>
     (\<exists>xs. entries_of (map snd (sv_log s)) xs \<and> trimmed m (fresh w0 @ xs) (fresh (sv_world s))) \<and>
     (\<forall>i < length qs. handler_inv (qs ! i) (sv_pcs s ! i) (published_by i (sv_log s)))"

lemma server_inv_start: "ready w \<Longrightarrow> server_inv m qs w (start_server qs w)"
  by (auto simp: server_inv_def start_server_def handler_inv_def intro!: exI [of _ "[]"])

text \<open>A step of a handler keeps its own invariant and adds to the stream what it logs.\<close>

lemma handler_step_inv:
  assumes "ready w" and "or_default s DefaultRawStreamName = stream" and "stream \<noteq> []"
    and "handler_inv q p es" and "\<not> replied p" and "handler_step h (svc m s) q (p, w) = (p', w')"
  shows "ready w' \<and> pending w' = pending w \<and> handler_inv q p' (es @ map snd (newly_published i p p')) \<and>
    (\<exists>xs. entries_of (map snd (newly_published i p p')) xs \<and> trimmed m (fresh w @ xs) (fresh w'))"
proof (cases p)
  case Arrived
  show ?thesis
  proof (cases "accepted_requests q = []")
    case True
    then show ?thesis using assms serve_rejected [OF True, of h "svc m s" w] Arrived
      by (auto simp: handler_step_def handler_inv_def newly_published_def response_ids_def [of None] intro!: exI [of _ "[]"] split: option.splits)
  next
    case False
    then show ?thesis using assms Arrived
      by (auto simp: handler_step_def handler_inv_def newly_published_def intro!: exI [of _ "[]"])
  qed
next
  case (Drawing rs ids)
  show ?thesis
  proof (cases rs)
    case Nil
    then have "length ids = length (accepted_requests q)" "accepted_requests q \<noteq> []"
      using assms(4) Drawing by (auto simp: handler_inv_def dest: list_all2_lengthD)
    then show ?thesis using assms Drawing Nil answer_ids [of q ids]
      by (auto simp: handler_step_def handler_inv_def newly_published_def intro!: exI [of _ "[]"])
  next
    case (Cons r rs')
    obtain e w1 where e: "new_raw_event h r w = (e, w1)" by force
    then show ?thesis using assms Drawing Cons new_event_quiet [OF e] new_raw_event_made [OF e]
      by (auto simp: handler_step_def handler_inv_def newly_published_def intro!: exI [of _ "[]"])
  qed
next
  case (Publishing e rs ids)
  obtain i' w1 where b: "buffer_event (svc m s) e w = (None, w1)" "ready w1" "trimmed m (fresh w @ [published_entry i' e]) (fresh w1)"
      "pending w1 = pending w"
    using buffer_event_fresh [OF assms(1-3)] by blast
  obtain qs r where q: "accepted_requests q = qs @ r # rs" "made_from r e" "list_all2 made_from qs es" "ids = map re_EventID es"
    using assms(4) Publishing by (auto simp: handler_inv_def)
  then have "accepted_requests q = (qs @ [r]) @ rs \<and> list_all2 made_from (qs @ [r]) (es @ [e])"
    by (auto intro: list_all2_appendI)
  then have "handler_inv q (Drawing rs (ids @ [re_EventID e])) (es @ [e])"
    using q(4) by (auto simp: handler_inv_def simp del: append_assoc)
  then show ?thesis using assms(6) b Publishing
    by (auto simp: handler_step_def newly_published_def intro!: exI [of _ "[published_entry i' e]"])
next
  case (Replied r)
  then show ?thesis using assms(5) by (simp add: replied_def)
qed

lemma server_step_inv:
  assumes "or_default s DefaultRawStreamName = stream" and "stream \<noteq> []"
    and "server_inv m qs w0 st" and "server_step h (svc m s) qs st st'"
  shows "server_inv m qs w0 st'"
  using assms(4)
proof (elim server_stepE)
  fix i p w
  assume i: "i < length (sv_pcs st)" "\<not> replied (sv_pcs st ! i)"
    and p: "handler_step h (svc m s) (qs ! i) (sv_pcs st ! i, sv_world st) = (p, w)"
    and st': "st' = \<lparr>sv_pcs = (sv_pcs st)[i := p], sv_world = w, sv_log = sv_log st @ newly_published i (sv_pcs st ! i) p\<rparr>"
  let ?new = "newly_published i (sv_pcs st ! i) p"
  have v: "length (sv_pcs st) = length qs" "ready (sv_world st)" "pending (sv_world st) = pending w0"
    "\<forall>j < length qs. handler_inv (qs ! j) (sv_pcs st ! j) (published_by j (sv_log st))"
    using assms(3) by (simp_all add: server_inv_def)
  obtain ys where ys: "entries_of (map snd (sv_log st)) ys" "trimmed m (fresh w0 @ ys) (fresh (sv_world st))"
    using assms(3) by (auto simp: server_inv_def)
  have k: "handler_inv (qs ! i) (sv_pcs st ! i) (published_by i (sv_log st))" using v(1,4) i(1) by simp
  obtain xs where x: "ready w" "pending w = pending (sv_world st)" "handler_inv (qs ! i) p (published_by i (sv_log st) @ map snd ?new)"
      "entries_of (map snd ?new) xs" "trimmed m (fresh (sv_world st) @ xs) (fresh w)"
    using handler_step_inv [OF v(2) assms(1,2) k i(2) p, of i] by auto
  have "handler_inv (qs ! j) ((sv_pcs st)[i := p] ! j) (published_by j (sv_log st @ ?new))" if "j < length qs" for j
    using v(4) that x(3) i(1) published_by_own [of j i "sv_pcs st ! i" p] by (cases "j = i") auto
  moreover have "trimmed m (fresh w0 @ ys @ xs) (fresh w)" using trimmed_append [OF ys(2) x(5)] by simp
  moreover have "entries_of (map snd (sv_log st @ ?new)) (ys @ xs)" using entries_of_append [OF ys(1) x(4)] by simp
  ultimately show "server_inv m qs w0 st'"
    unfolding server_inv_def st' using v(1,3) x(1,2) by (auto intro!: exI [of _ "ys @ xs"])
qed

lemma server_reach_inv:
  assumes "server_reach h (svc m s) qs st n st'" and "or_default s DefaultRawStreamName = stream" and "stream \<noteq> []"
    and "server_inv m qs w0 st"
  shows "server_inv m qs w0 st'"
  using assms(1,4) by (induction rule: server_reach.induct) (auto intro: server_step_inv [OF assms(2,3)])

end

section \<open>On a Redis server\<close>

text \<open>The service of the command on the reference server.\<close>

definition keyspace_service :: "environ \<Rightarrow> 'a keyspace_scheme IngestionService" where
  "keyspace_service env =
     NewService (Some (redis_raw_buffer (NewRedisRawBuffer keyspace_client (stream_max_len env)))) (raw_stream_name env)"

lemma interleaved_requests:
  fixes c :: "'a keyspace_scheme" and env :: environ
  defines "n \<equiv> raw_stream_name env"
  assumes "ks_ready n g c" and "server_reach keyspace_host (keyspace_service env) qs (start_server qs c) k s"
  shows "\<exists>xs. entries_of (map snd (sv_log s)) xs \<and>
      trimmed (stream_max_len env) (ks_fresh n g c @ xs) (ks_fresh n g (sv_world s))"
    and "i < length qs \<Longrightarrow> sv_pcs s ! i = Replied r \<Longrightarrow>
      list_all2 made_from (accepted_requests (qs ! i)) (published_by i (sv_log s)) \<and>
      response_ids r = map re_EventID (published_by i (sv_log s))"
proof -
  have n: "or_default n DefaultRawStreamName = n" "n \<noteq> []"
    by (simp_all add: n_def raw_stream_name_def or_default_def DefaultRawStreamName_def)
  have "keyspace_ingestion.server_inv n g (stream_max_len env) qs c s"
    using keyspace_ingestion.server_reach_inv [OF assms(3) [unfolded keyspace_service_def, folded n_def] n]
      keyspace_ingestion.server_inv_start [OF assms(2)] by blast
  then have v: "\<exists>xs. entries_of (map snd (sv_log s)) xs \<and>
      trimmed (stream_max_len env) (ks_fresh n g c @ xs) (ks_fresh n g (sv_world s))"
    "\<forall>i < length qs. handler_inv (qs ! i) (sv_pcs s ! i) (published_by i (sv_log s))"
    unfolding keyspace_ingestion.server_inv_def by blast+
  from v(1) show "\<exists>xs. entries_of (map snd (sv_log s)) xs \<and>
      trimmed (stream_max_len env) (ks_fresh n g c @ xs) (ks_fresh n g (sv_world s))" .
  show "list_all2 made_from (accepted_requests (qs ! i)) (published_by i (sv_log s)) \<and>
      response_ids r = map re_EventID (published_by i (sv_log s))" if "i < length qs" "sv_pcs s ! i = Replied r"
    using v(2) that by (auto simp: handler_inv_def)
qed

lemma server_steps_bound:
  assumes "server_reach h sv qs (start_server qs w) k s"
  shows "k \<le> (\<Sum>q \<leftarrow> qs. 2 * length (accepted_requests q) + 2)"
  using server_reach_bound [OF assms]
  by (simp add: server_left_def start_server_def handler_left_def sum_list_sum_nth atLeast0LessThan)

end
