(* ===== verification/Samples.thy ===== *)
theory Samples
  imports Ingestion Production Local_Worker Worker_Trace Worker_Pool Worker_Loop Delivery Commands
begin

text \<open>Concrete values on which the properties of the development are exercised.\<close>

definition ascii_tables :: unicode where
  "ascii_tables = \<lparr>lower_rune = id, upper_rune = id\<rparr>"

definition amd64 :: platform where
  "amd64 = \<lparr>tables = ascii_tables, oob_int = (\<lambda>_. of_int int64_min)\<rparr>"

definition syslog_sample :: RawEvent where
  "syslog_sample =
     \<lparr>re_EventID = ''evt_1'', re_ReceivedAt = ''2026-01-01T00:00:00Z'', re_Format = ''Syslog'', re_Source = ''fw'',
      re_Payload = ''deny TCP SPT=22 DPT=70000''\<rparr>"

definition csv_sample :: RawEvent where
  "csv_sample =
     \<lparr>re_EventID = ''evt_2'', re_ReceivedAt = ''2026-01-01T00:00:00Z'', re_Format = [], re_Source = [],
      re_Payload = ''action,src_port'' @ [CHR 0x0A] @ ''DENY,80''\<rparr>"

definition blank_sample :: RawEvent where
  "blank_sample =
     \<lparr>re_EventID = ''evt_3'', re_ReceivedAt = [], re_Format = ''json'', re_Source = [], re_Payload = '' ''\<rparr>"

definition sample_request :: IngestRequest where
  "sample_request = \<lparr>iq_Format = ''csv'', iq_Source = [], iq_Payload = ''x''\<rparr>"

definition syslog_message :: RawMessage where
  "syslog_message = \<lparr>rm_ID = ''1-0'', rm_Event = syslog_sample\<rparr>"

definition blank_message :: RawMessage where
  "blank_message = \<lparr>rm_ID = ''2-0'', rm_Event = blank_sample\<rparr>"

definition array_message :: RawMessage where
  "array_message = \<lparr>rm_ID = ''3-0'', rm_Event =
     \<lparr>re_EventID = ''evt_4'', re_ReceivedAt = [], re_Format = [], re_Source = [], re_Payload = ''[]''\<rparr>\<rparr>"

definition iso_sample :: RawEvent where
  "iso_sample =
     \<lparr>re_EventID = ''evt_5'', re_ReceivedAt = [], re_Format = [], re_Source = ''fw'',
      re_Payload = ''2026-08-05T10:00:00Z fw1 DENY SRC=10.0.0.1''\<rparr>"

definition schema_check :: compiled_schema where
  "schema_check = reference_validator universal_schema"

lemma schema_check_implements: "implements schema_check universal_schema"
  by (simp add: schema_check_def implements_reference)

definition empty_cluster :: cluster where
  "empty_cluster = \<lparr>ks_now = 0, ks_keys = Map.empty, ks_streams = Map.empty, cl_objects = Map.empty\<rparr>"

text \<open>A cluster whose worker group exists and has been handed the given entries.\<close>

definition cluster_with :: "XMessage list \<Rightarrow> XMessage list \<Rightarrow> cluster" where
  "cluster_with pend new =
     empty_cluster\<lparr>ks_streams := [DefaultRawStreamName \<mapsto>
       \<lparr>sm_trimmed = 0, sm_entries = pend @ new, sm_groups = [DefaultGroupName \<mapsto> (length pend, map (\<lambda>m. (m, 0)) pend)]\<rparr>]\<rparr>"

definition sample_worker :: "cluster Worker" where
  "sample_worker = cluster_worker amd64 schema_check empty_environ"

definition local_start :: local_world where
  "local_start = \<lparr>mi_processing = Map.empty, mi_done = Map.empty, lw_unacked = [''1-0'', ''2-0'']\<rparr>"

lemma sample_detection: "dr_Format (Detect ascii_tables (re_Payload syslog_sample) (re_Format syslog_sample)) = ''syslog''"
  by code_simp

lemma sample_parsed:
  "production_engine amd64 (\<lambda>_. 0) syslog_sample (Detect ascii_tables (re_Payload syslog_sample) (re_Format syslog_sample)) =
     Inr (Some \<lparr>pe_Timestamp = ''1970-01-01T00:00:00Z'',
       pe_Source = \<lparr>si_Type = ''firewall'', si_Vendor = ''generic'', si_Product = ''syslog-firewall'', si_Identifier = ''fw''\<rparr>,
       pe_Event = \<lparr>ei_Category = ''network'', ei_Action = ''deny'', ei_Severity = ''high''\<rparr>,
       pe_Network = Some \<lparr>ni_SrcIP = [], ni_SrcPort = Some 22, ni_DstIP = [], ni_DstPort = Some 70000, ni_Protocol = ''TCP''\<rparr>,
       pe_User = Some \<lparr>ui_Username = None\<rparr>\<rparr>)"
  by code_simp

lemma sample_processable: "processable amd64 syslog_sample" "\<not> processable amd64 blank_sample" "processable amd64 csv_sample"
  by code_simp+

text \<open>The run of the pipeline on the syslog sample: its destination port is out of range.\<close>

definition sample_readings :: readings where
  "sample_readings = \<lparr>parse_clock = \<lambda>_. 0, normalize_clock = \<lambda>_. 0, drawn_uuid = ''0''\<rparr>"

lemma itoa_0: "itoa 0 = ''0''"
  by code_simp

lemma sample_process:
  "fst (ProcessSingleEvent steady_host sample_worker e empty_cluster) = run_pipeline sample_worker sample_readings None e"
  using cluster_put_keeps_server [of "mc_BucketName (minio_config empty_environ)" "Some e" empty_cluster]
  by (simp add: ProcessSingleEvent_def sample_worker_def cluster_worker_def store_raw_def production_fields steady_host_def
      keyspace_host_def sample_readings_def empty_cluster_def itoa_0)

lemma sample_result:
  assumes "run_pipeline sample_worker rd cerr syslog_sample = Inr res" and "parse_clock rd = (\<lambda>_. 0)"
  shows "ue_Network (pr_UniversalEvent res) =
    Some \<lparr>ni_SrcIP = [], ni_SrcPort = Some 22, ni_DstIP = [], ni_DstPort = Some 70000, ni_Protocol = ''TCP''\<rparr>"
proof -
  let ?d = "Detect (tables amd64) (re_Payload syslog_sample) (re_Format syslog_sample)"
  obtain x where "production_engine amd64 (parse_clock rd) syslog_sample ?d = Inr (Some x)"
      "Normalize (drawn_uuid rd) (normalize_clock rd) syslog_sample (Some x) ?d = Inr (pr_UniversalEvent res)"
    using pipeline_result [OF production_worker_stages assms(1) [unfolded sample_worker_def cluster_worker_def]] by blast
  then show ?thesis using sample_parsed Normalize_fields(4) [of "drawn_uuid rd" "normalize_clock rd" syslog_sample "Some x" ?d]
    by (auto simp: assms(2) amd64_def)
qed

lemma sample_run:
  "\<exists>res. fst (ProcessSingleEvent steady_host sample_worker syslog_sample empty_cluster) = Inr res \<and>
     \<not> ports_in_range (pr_UniversalEvent res)"
proof -
  have "\<not> isl (run_pipeline sample_worker sample_readings None syslog_sample)"
    unfolding sample_worker_def cluster_worker_def
    using pipeline_error [OF production_worker_stages] sample_processable(1) by blast
  then obtain res where r: "run_pipeline sample_worker sample_readings None syslog_sample = Inr res"
    by (cases "run_pipeline sample_worker sample_readings None syslog_sample") auto
  have "\<not> ports_in_range (pr_UniversalEvent res)"
    using sample_result [OF r] by (simp add: sample_readings_def ports_in_range_def network_ports_ok_def port_ok_def)
  then show ?thesis using r sample_process by auto
qed

text \<open>The request for the CSV sample over HTTP.\<close>

definition csv_body :: string where
  "csv_body = json_print (JObj [(''payload'', JStr (re_Payload csv_sample))])"

definition csv_request :: IngestRequest where
  "csv_request = \<lparr>iq_Format = [], iq_Source = [], iq_Payload = re_Payload csv_sample\<rparr>"

definition csv_post :: http_request where
  "csv_post = \<lparr>hq_Method = ''POST'', hq_Path = ''/ingest'', hq_Body = csv_body\<rparr>"

definition health_check :: http_request where
  "health_check = \<lparr>hq_Method = ''GET'', hq_Path = ''/health'', hq_Body = []\<rparr>"

lemma csv_body_decoded: "decode_request csv_body = Inr csv_request"
  by code_simp

lemma csv_request_processable:
  assumes "made_from csv_request e"
  shows "processable amd64 (coerce_raw_event e)"
proof -
  have "to_lower (tables amd64) (trim_space (coerce_utf8 [])) \<notin> {''syslog'', ''json'', ''csv''}"
    "dr_Format (Detect (tables amd64) (coerce_utf8 (iq_Payload csv_request)) (coerce_utf8 [])) = ''csv''" by code_simp+
  then show ?thesis using processable_by_content [of amd64 "coerce_raw_event e"] assms
    by (simp add: coerce_raw_event_def made_from_def) (simp add: csv_request_def)
qed

text \<open>The request is accepted on a drained cluster.\<close>

lemma csv_accepted:
  "\<exists>r c1. serve (ingestion_main (\<lambda>_ _ _. keyspace_client) keyspace_host empty_environ) ''POST'' ''/ingest'' csv_body (cluster_with [] []) =
     Some (r, c1) \<and> rp_Status r = StatusAccepted \<and> key_locked c1 = {}"
  by (simp add: serve_def HandleIngest_def ingestion_main_def ingestion_service_def csv_body_decoded service_Ingest_def
      csv_request_def csv_sample_def new_raw_event_def buffer_event_def NewService_def redis_raw_buffer_def NewRedisRawBuffer_def
      redis_PublishRaw_def keyspace_client_def keyspace_host_def ks_xadd_def Let_def json_response_def key_locked_def ks_has_def
      ks_put_def cluster_with_def empty_cluster_def)

text \<open>The settings of a worker without environment variables.\<close>

lemma empty_names:
  "raw_stream_name empty_environ = DefaultRawStreamName" "c_GroupName (worker_config empty_environ) = DefaultGroupName"
  by (simp_all add: raw_stream_name_def worker_config_def Let_def empty_environ_def or_default_def)

lemma sample_durations:
  "w_claimIdleTime sample_worker = 60 * Second" "w_lockTTL sample_worker = 120 * Second"
  by (simp_all add: sample_worker_def cluster_worker_def production_worker_def NewWorker_def worker_config_def Let_def
      empty_environ_def parse_int64_lax_def positive_or_def defaultLockTTLSeconds_def default_ttls wrap64_def int_word_sint Millisecond_def
      Second_def)

text \<open>A node on which MinIO cannot be reached.\<close>

definition node_externals :: "node externals" where
  "node_externals = \<lparr>x_redis = \<lambda>_ _ _. keyspace_client, x_minio = \<lambda>_ _ _ _. Inl (Remote ''unreachable''), x_memory = node_cell,
     x_readFile = \<lambda>_. Inl (Errorf ''no file''), x_embedded = ''{}'', x_addResource = \<lambda>_. None, x_compile = \<lambda>_. Inr schema_check\<rparr>"

definition idle_node :: node where
  "idle_node = \<lparr>ks_now = 0, ks_keys = Map.empty, ks_streams = Map.empty, nd_memory = Map.empty\<rparr>"

end
