(* ===== verification/Spec2Isabelle.thy ===== *)
theory Spec2Isabelle
  imports Ingestion Worker_Trace Worker_Loop Worker_Pool Production Local_Worker Delivery Commands Ingestion_Concurrency Samples
begin

text \<open>
  A verification of LogMorph (ULPF): a service that takes raw firewall logs over HTTP, buffers them
  in a Redis stream, and a worker that stores, detects, parses, normalises and validates them, once
  per event although the stream delivers at least once.

  \<^bold>\<open>The program.\<close>  Two commands.  \<open>cmd/ingestion\<close> serves \<open>POST /ingest\<close> and \<open>POST /ingest/batch\<close>; its service
  turns every request into a raw event with a fresh id and publishes it (\<open>internal/ingestion\<close>,
  \<open>internal/buffer/redis.go\<close>).  \<open>cmd/worker\<close> reads the stream through a consumer group, reclaims what crashed
  workers left pending, and hands every message to the idempotent handler of \<open>internal/worker\<close>: check
  the completion marker, claim the processing lock, run the pipeline, then mark done and acknowledge, or
  release.  The pipeline keeps a raw copy (\<open>internal/storage/raw\<close>), detects the format and the drift
  (\<open>internal/detection\<close>), selects a parser (\<open>internal/parsing\<close>), normalises (\<open>internal/normalization\<close>)
  and validates against a JSON schema (\<open>internal/validation\<close>).

  \<^bold>\<open>How it is modelled.\<close>  Structs are records with a prefix per struct, pointers are options, errors are
  values of \<open>go_error\<close>, strings are lists of bytes.  An operation with effects is a function of the world
  \<open>'w\<close> it acts on and returns the world afterwards; a Go interface is a record of such functions.  What
  the program gets from outside is a parameter: the go-redis and MinIO clients, the compiled schema of the
  jsonschema package, and the host (clock, UUIDs, contexts, Unicode case tables, the conversion of floats out
  of range).  What is relied on is stated as locales (\<open>redis_keys\<close>, \<open>redis_stream\<close>, \<open>object_bucket\<close>) or
  as \<open>implements\<close>, and each is interpreted by a reference server.

  \<^bold>\<open>Theories.\<close>
  \<^item> \<open>Prelude\<close>: errors, results, lists and maps.  \<open>Go_Text\<close>, \<open>Go_Json\<close>, \<open>Go_Decode\<close>, \<open>Go_Csv\<close>, \<open>Go_Regexp\<close>,
    \<open>Go_Time\<close>, \<open>Go_Time_Laws\<close>: the parts of Go's \<open>strings\<close>, \<open>unicode/utf8\<close>, \<open>strconv\<close>, \<open>encoding/json\<close>,
    \<open>encoding/csv\<close>, \<open>regexp\<close> and \<open>time\<close> the program calls, with the laws they keep (printing and reading
    JSON, integers and dates; the calendar; uniform CSV records).
  \<^item> \<open>Models\<close>: \<open>internal/models/event.go\<close> and the JSON forms of its structs.
  \<^item> \<open>Detection\<close>: \<open>detector.go\<close>, \<open>drift.go\<close>.  \<open>Parsing\<close>: \<open>parser.go\<close>, \<open>registry.go\<close>, \<open>engine.go\<close> and the
    parser contract (locale \<open>format_parser\<close>), interpreted in \<open>Csv_Parser\<close>, \<open>Json_Parser\<close> and \<open>Syslog_Parser\<close>.
  \<^item> \<open>Normalization\<close>: \<open>normalizer.go\<close>.  \<open>Validation\<close>: the schema file, what conforming to it means, and
    \<open>validator.go\<close>.  \<open>Raw_Store\<close>: \<open>store.go\<close>, \<open>minio.go\<close> and their contract (locale \<open>raw_event_store\<close>).
  \<^item> \<open>Redis_Client\<close>: the interface of go-redis, its laws and a server that keeps them.  \<open>Redis_Buffer\<close>:
    \<open>redis.go\<close>.  \<open>Idempotency\<close>: \<open>idempotency.go\<close>, both stores and their contract (locale
    \<open>idempotency_store\<close>).  \<open>Runtime\<close>: the host and \<open>int64\<close> arithmetic.
  \<^item> \<open>Ingestion\<close>: \<open>service.go\<close>, \<open>handler.go\<close>, and their use of a stream (locale \<open>ingestion_stream\<close>).
    \<open>Ingestion_Concurrency\<close>: handlers of several HTTP requests, interleaved.
  \<^item> \<open>Worker\<close>: \<open>worker.go\<close>.  \<open>Worker_Contract\<close>: the abstract ledger and the refinement (locale
    \<open>worker_services\<close>).  \<open>Worker_Trace\<close>: the calls a message causes.  \<open>Worker_Concurrency\<close>: goroutines
    interleaved call by call (locale \<open>shared_services\<close>).  \<open>Worker_Pool\<close>: the dispatcher, semaphore and wait
    group.  \<open>Worker_Batch\<close>: \<open>processMessages\<close> as a whole.  \<open>Worker_Loop\<close>: \<open>Start\<close> by rounds.
  \<^item> \<open>Programs\<close>: what both \<open>main\<close> functions assemble from the environment.  \<open>Commands\<close>: their runs, from
    the first ping to the deferred calls.  \<open>Pipeline\<close>: the stages they install.  \<open>Production\<close>: the worker
    on a Redis server and an object store.  \<open>Delivery\<close>: both commands on that cluster, from an accepted
    request to its completion, crash recovery, and the lifetime of a lock.  \<open>Local_Worker\<close>: the worker on
    the in-memory store.  \<open>Samples\<close>: values.

  \<^bold>\<open>What is shown.\<close>
  \<^item> Pipeline (C1--C3): an event that is processed is faithful to its raw event and complete, and it is
    valid exactly when its ports are in range; detection decides what is processed.
  \<^item> One message and batches (C4--C8): the calls follow the decision tree for every answer of the
    services; the handler refines the ledger; a batch, sequential or parallel, completes and acknowledges
    what it accepts and acknowledges nothing else; a JSON array is never acknowledged.
  \<^item> From request to completion (C9--C12): an accepted event is completed by the next round, messages of
    a crashed worker that a due reclaim reaches are completed, but not before the lock of the crashed worker has
    expired; a worker that outlives its lock frees the lock of its successor.
  \<^item> Interleavings (C13--C15): mutual exclusion and at most one successful run per event as long as no
    lock expires, and the double run the in-memory store allows.
  \<^item> Pool and loop (C16--C19): the bound and the completion of the pool, mutual exclusion of its
    goroutines, the deadlock after cancellation, and the return of the loop.
  \<^item> Configuration and the worker command (C20--C22): the settings and their overflow; on which conditions
    the command ends, how, and which calls close its stores.
  \<^item> Streams (C23--C25): what is published is read back, up to what the cap of the stream costs; the
    consumer group; malformed entries, which stay pending.
  \<^item> Ingestion (C26--C29): a run of the ingestion command, its requests in sequence or interleaved,
    publishes what it accepts; statuses.
  \<^item> Stores (C30--C33): round trips, the last write, the lock and the completion marker.
  \<^item> Detection and parsing (C34--C40).

  \<^bold>\<open>Bounds and fuel.\<close>  Recursive functions are total.  \<open>worker_loop\<close> and \<open>await_redis\<close> may run for ever
  and are partial functions into \<open>option\<close>; when they return is characterised exactly.  A goroutine takes
  at most five steps, a pool of \<open>n\<close> messages at most \<open>11 * n + 3\<close>, an HTTP handler at most two per event
  and two more.  A time-to-live is exact up to 9223372036 seconds (\<open>safe_ttls\<close>).  The theorems on
  clusters take a host on which no time passes while messages are processed (\<open>steady_host\<close>), so that no key
  expires; what the expiry of a lock does is shown by letting time pass between the steps (C11, C12).

  \<^bold>\<open>The stream.\<close>  \<open>XADD\<close> with \<open>MAXLEN\<close> trims: the law of the stream lets it cost the oldest entries, but
  never leaves fewer than the cap and never trims without one (\<open>trimmed\<close>); the reference server trims to
  the cap, or in the approximate form only whole nodes of 100 entries.  \<open>XAUTOCLAIM\<close> looks at ten entries of
  the pending list for every message it may claim, from the start since the program drops the cursor, and
  removes those whose entry the stream has lost.

  \<^bold>\<open>Not modelled.\<close>  Log output; the delivery of signals (a signal is the cancellation of the context, or
  the end of the list of requests) and the time limit of the shutdown; failures of the HTTP listener after
  its start, the method and path matching of \<open>ServeMux\<close> beyond the three routes, and request timeouts;
  mutexes (every guarded operation is one step).
\<close>

section \<open>The pipeline\<close>

text \<open>
  C1.  With a validator that implements the schema, an event the assembled pipeline processes is
  valid exactly when its ports lie in 0..65535, and it carries errors exactly when it is not.
\<close>

theorem processed_event_valid_iff_ports:
  assumes "implements cs universal_schema"
    and "fst (ProcessSingleEvent h (production_worker pf rdb st cs env) e w) = Inr res"
  shows "(pr_Valid res \<longleftrightarrow> ports_in_range (pr_UniversalEvent res)) \<and> (pr_Valid res \<longleftrightarrow> pr_Errors res = [])"
proof -
  obtain rd cerr where r: "run_pipeline (production_worker pf rdb st cs env) rd cerr e = Inr res"
    using Process_run [of h "production_worker pf rdb st cs env" e w] assms(2) by auto
  from pipeline_valid_iff [OF assms(1) production_worker_stages r] pipeline_result [OF production_worker_stages r]
  show ?thesis using ValidateBytes_errors by (auto simp: Validate_def)
qed

theorem processed_event_valid_iff_ports_witness:
  "\<exists>res. fst (ProcessSingleEvent steady_host sample_worker syslog_sample empty_cluster) = Inr res \<and>
     \<not> pr_Valid res \<and> pr_Errors res \<noteq> [] \<and> \<not> ports_in_range (pr_UniversalEvent res)"
proof -
  obtain res where r: "fst (ProcessSingleEvent steady_host sample_worker syslog_sample empty_cluster) = Inr res"
      "\<not> ports_in_range (pr_UniversalEvent res)"
    using sample_run by blast
  from processed_event_valid_iff_ports [OF schema_check_implements r(1) [unfolded sample_worker_def cluster_worker_def]] r
  show ?thesis by auto
qed

text \<open>
  C2.  A processed event is faithful to its raw event and complete: the payload is kept byte for
  byte, a non-empty event id is kept, the format is the detected one, and id, timestamp, source
  and event fields and the protocol are not empty.
\<close>

theorem processed_event_faithful:
  assumes "fst (ProcessSingleEvent h (production_worker pf rdb st cs env) e w) = Inr res"
  defines "u \<equiv> pr_UniversalEvent res"
  shows "canonical_event u \<and> ri_Message (ue_Raw u) = re_Payload e \<and> pr_EventID res = ue_EventID u \<and>
    (re_EventID e \<noteq> [] \<longrightarrow> ue_EventID u = re_EventID e) \<and>
    ri_Format (ue_Raw u) = dr_Format (Detect (tables pf) (re_Payload e) (re_Format e)) \<and>
    ri_Format (ue_Raw u) \<in> {''syslog'', ''json'', ''csv''} \<and>
    (\<exists>x. complete_parsed x \<and> ue_Source u = pe_Source x \<and> ue_Event u = pe_Event x \<and>
       ue_Network u = pe_Network x \<and> ue_User u = pe_User x \<and> ue_Timestamp u = pe_Timestamp x)"
proof -
  let ?d = "Detect (tables pf) (re_Payload e) (re_Format e)"
  obtain rd cerr where r: "run_pipeline (production_worker pf rdb st cs env) rd cerr e = Inr res"
    using Process_run [of h "production_worker pf rdb st cs env" e w] assms(1) by auto
  obtain x where x: "production_engine pf (parse_clock rd) e ?d = Inr (Some x)" "complete_parsed x"
      "Normalize (drawn_uuid rd) (normalize_clock rd) e (Some x) ?d = Inr u" "pr_EventID res = ue_EventID u"
    using pipeline_result [OF production_worker_stages r] unfolding u_def by blast
  have d: "dr_Format ?d \<in> {''syslog'', ''json'', ''csv''}"
    using x(1) Detect_formats [of "tables pf" "re_Payload e" "re_Format e"]
    by (auto simp: engine_on_detection [OF refl])
  moreover have "pe_Timestamp x \<noteq> []" using x(2) by (simp add: complete_parsed_def)
  moreover have "dr_Format ?d \<noteq> []" using d by auto
  ultimately show ?thesis
    using Normalize_canonical [OF x(3)] Normalize_fields [OF x(3)] x(2,4) by auto
qed

theorem processed_event_faithful_witness:
  "\<exists>res. fst (ProcessSingleEvent steady_host sample_worker syslog_sample empty_cluster) = Inr res \<and>
     ri_Message (ue_Raw (pr_UniversalEvent res)) = ''deny TCP SPT=22 DPT=70000'' \<and> pr_EventID res = ''evt_1''"
proof -
  obtain res where r: "fst (ProcessSingleEvent steady_host sample_worker syslog_sample empty_cluster) = Inr res"
    using sample_run by blast
  from processed_event_faithful [OF r [unfolded sample_worker_def cluster_worker_def]] r show ?thesis
    by (auto simp: syslog_sample_def)
qed

text \<open>
  C3.  Without a recognised format hint, content detected as CSV or syslog is always processed,
  content detected as JSON exactly when it decodes into the log schema, and unrecognised or
  blank content never.
\<close>

theorem detection_decides_processing:
  assumes "to_lower (tables pf) (trim_space (re_Format e)) \<notin> {''syslog'', ''json'', ''csv''}"
  defines "f \<equiv> dr_Format (Detect (tables pf) (re_Payload e) (re_Format e))"
  shows "(\<exists>res. fst (ProcessSingleEvent h (production_worker pf rdb st cs env) e w) = Inr res) \<longleftrightarrow>
    f = ''csv'' \<or> f = ''syslog'' \<or> f = ''json'' \<and> (\<exists>d. dec_schema (trim_space (re_Payload e)) = Inr d)"
proof -
  obtain rd cerr where r: "fst (ProcessSingleEvent h (production_worker pf rdb st cs env) e w) =
      run_pipeline (production_worker pf rdb st cs env) rd cerr e"
    using Process_run [of h "production_worker pf rdb st cs env" e w] by auto
  have "(\<exists>x. y = Inr x) \<longleftrightarrow> \<not> isl y" for y :: "'d result" by (cases y) auto
  moreover have "(\<exists>x. y = Inr x) \<longleftrightarrow> \<not> isl y" for y :: "jsonLogSchema result" by (cases y) auto
  moreover have "(\<exists>x. y = Inr x) \<longleftrightarrow> \<not> isl y" for y :: "PipelineResult result" by (cases y) auto
  ultimately show ?thesis
    using processable_by_content [OF assms(1)] pipeline_error [OF production_worker_stages] r unfolding f_def by metis
qed

theorem detection_decides_processing_witness:
  "\<exists>res. fst (ProcessSingleEvent steady_host sample_worker csv_sample empty_cluster) = Inr res"
proof -
  have "to_lower (tables amd64) (trim_space (re_Format csv_sample)) \<notin> {''syslog'', ''json'', ''csv''}"
    "dr_Format (Detect (tables amd64) (re_Payload csv_sample) (re_Format csv_sample)) = ''csv''" by code_simp+
  then show ?thesis
    unfolding sample_worker_def cluster_worker_def using detection_decides_processing by metis
qed

section \<open>One message\<close>

text \<open>
  C4.  For interfaces that answer in any way, errors included, the calls made for a message are
  those of the documented decision tree: a done event is only acknowledged; an event locked
  elsewhere is neither processed nor acknowledged; otherwise (also when the checks fail) it is
  stored and processed, then marked done and acknowledged, or released without acknowledgement.
\<close>

theorem message_decision_tree:
  fixes h :: "'w host" and wk :: "'w Worker" and w :: 'w and msg :: RawMessage and st :: "'w IdempotencyStore"
  assumes "w_idempotency wk = Some st"
  defines "e \<equiv> re_EventID (rm_Event msg)"
  defines "done \<equiv> fst (IsDone st e w)"
  defines "claimed \<equiv> fst (TryClaimProcessing st e (w_lockTTL wk) (snd (IsDone st e w)))"
  defines "ackc \<equiv> CallAck (w_streamName wk) (w_groupName wk) [rm_ID msg]"
  shows "snd (traced_run h wk msg w) =
    (if done = Inr True then [CallIsDone e done, ackc]
     else if claimed = Inr False then [CallIsDone e done, CallClaim e claimed]
     else [CallIsDone e done, CallClaim e claimed] @ put_calls wk e @
       (case fst (ProcessSingleEvent h wk (rm_Event msg) (snd (check_gate wk e w))) of
          Inl _ \<Rightarrow> [CallRelease e] | Inr _ \<Rightarrow> [CallMark e, ackc]))"
  unfolding e_def done_def claimed_def ackc_def
  by (subst decision_tree [OF assms(1)])
    (simp add: gate_calls_def outcome_calls_def Let_def lock_calls_def assms(1) split: sum.split)

theorem message_decision_tree_witness:
  "snd (traced_run local_host (local_worker amd64 schema_check) blank_message local_start) =
     [CallIsDone ''evt_3'' (Inr False), CallClaim ''evt_3'' (Inr True), CallRelease ''evt_3'']"
proof -
  have i: "w_idempotency (local_worker amd64 schema_check) = Some memory_idempotency" by (rule local_fields)
  have "isl (fst (ProcessSingleEvent local_host (local_worker amd64 schema_check) blank_sample s))" for s
    using Process_run [of local_host "local_worker amd64 schema_check" blank_sample s] pipeline_error [OF local_fields(1)]
      sample_processable(2) by metis
  then have p: "\<exists>er. fst (ProcessSingleEvent local_host (local_worker amd64 schema_check) blank_sample s) = Inl er" for s
    by (metis isl_def)
  obtain er where "fst (ProcessSingleEvent local_host (local_worker amd64 schema_check) blank_sample
      (snd (check_gate (local_worker amd64 schema_check) ''evt_3'' local_start))) = Inl er"
    using p by blast
  then show ?thesis
    unfolding message_decision_tree [OF i]
    by (simp add: blank_message_def blank_sample_def memory_idempotency_def memory_IsDone_def memory_TryClaim_def
        local_start_def flag_def put_calls_def local_fields)
qed

section \<open>Batches and the ledger\<close>

text \<open>
  C5.  On a cluster the worker refines the ledger: processing a message acts on the locks, the
  completion markers and the outstanding messages as the abstract step does.
\<close>

theorem worker_refines_ledger:
  assumes "safe_ttls env"
  shows "ledger_view env (processSingleMessageIdempotent steady_host (cluster_worker pf cs env) m c) =
    ledger_process False (processable pf) m (ledger_view env c)"
  by (rule cluster_refines [OF assms])

theorem worker_refines_ledger_witness:
  "ledger_view empty_environ (processSingleMessageIdempotent steady_host sample_worker syslog_message empty_cluster) =
     \<lparr>held = {''evt_1''}, completed = {''evt_1''}, outstanding = {}\<rparr>"
proof -
  have "ledger_view empty_environ empty_cluster = \<lparr>held = {}, completed = {}, outstanding = {}\<rparr>"
    by (simp add: ledger_view_def key_locked_def key_finished_def unacked_ids_def ks_has_def ks_pending_def ks_stream_def
        empty_cluster_def)
  then show ?thesis
    using worker_refines_ledger [OF empty_environ_safe, of amd64 schema_check syslog_message empty_cluster] sample_processable(1)
    by (simp add: sample_worker_def ledger_process_def syslog_message_def) (simp add: syslog_sample_def)
qed

text \<open>
  C6.  A sequential batch on a cluster without stale locks: every message whose event the pipeline
  accepts ends acknowledged with its event completed, and no message is acknowledged unless its
  event is completed; so a message whose processing fails stays outstanding.
\<close>

theorem sequential_batch_outcome:
  fixes pf :: platform and cs :: compiled_schema and env :: environ and ms :: "RawMessage list" and c :: cluster
  assumes "safe_ttls env" and "key_locked c \<subseteq> key_finished c"
  defines "c' \<equiv> process_sequential steady_host (cluster_worker pf cs env) ms c"
  shows "(\<forall>m \<in> set ms. processable pf (rm_Event m) \<longrightarrow> event_id m \<in> key_finished c' \<and> rm_ID m \<notin> unacked_ids env c') \<and>
    (\<forall>i \<in> unacked_ids env c - unacked_ids env c'. \<exists>m \<in> set ms. rm_ID m = i \<and> event_id m \<in> key_finished c')"
proof -
  let ?l = "ledger_view env c"
  have b: "ledger_batch False (processable pf) ms ?l = ledger_view env c'"
    unfolding c'_def by (rule cluster_batch_refines [OF assms(1), symmetric])
  have v: "completed (ledger_view env x) = key_finished x" "outstanding (ledger_view env x) = unacked_ids env x"
    "held (ledger_view env x) = key_locked x" for x by (simp_all add: ledger_view_def)
  show ?thesis
    using ledger_batch_good [of ?l _ ms "processable pf" False] ledger_batch_safe [of _ ?l False "processable pf" ms] assms(2)
    unfolding b v by blast
qed

theorem sequential_batch_outcome_witness:
  "rm_ID syslog_message \<notin> unacked_ids empty_environ
     (process_sequential steady_host sample_worker [blank_message, syslog_message]
        (cluster_with [stream_entry ''1-0'' [], stream_entry ''2-0'' []] []))"
proof -
  let ?c = "cluster_with [stream_entry ''1-0'' [], stream_entry ''2-0'' []] []"
  have "key_locked ?c \<subseteq> key_finished ?c"
    by (simp add: key_locked_def ks_has_def cluster_with_def empty_cluster_def)
  moreover have "processable amd64 (rm_Event syslog_message)" by (simp add: syslog_message_def sample_processable)
  ultimately show ?thesis
    using sequential_batch_outcome [OF empty_environ_safe, of ?c "[blank_message, syslog_message]" amd64 schema_check]
    unfolding sample_worker_def by (simp only: list.set ball_simps simp_thms)
qed

text \<open>
  C7.  \<open>processMessages\<close> as a whole, sequential or with its goroutine pool, in every interleaving:
  on a cluster without stale locks, a batch of distinct events ends with every accepted event
  completed and its message acknowledged, and no message is acknowledged unless its event is
  completed.
\<close>

theorem batch_outcome_any_schedule:
  assumes "safe_ttls env" and "processMessages steady_host (cluster_worker pf cs env) False ms c c'"
    and "key_locked c \<subseteq> key_finished c" and "distinct (map event_id ms)"
  shows "(\<forall>m \<in> set ms. processable pf (rm_Event m) \<longrightarrow> event_id m \<in> key_finished c' \<and> rm_ID m \<notin> unacked_ids env c') \<and>
    (\<forall>i \<in> unacked_ids env c - unacked_ids env c'. \<exists>m \<in> set ms. rm_ID m = i \<and> event_id m \<in> key_finished c')"
  by (rule cluster_processes_batch [OF assms])

theorem batch_outcome_any_schedule_witness:
  "\<exists>c'. processMessages steady_host sample_worker False [blank_message, syslog_message]
      (cluster_with [stream_entry ''1-0'' [], stream_entry ''2-0'' []] []) c' \<and>
    rm_ID syslog_message \<notin> unacked_ids empty_environ c'"
proof -
  let ?c = "cluster_with [stream_entry ''1-0'' [], stream_entry ''2-0'' []] []" and ?ms = "[blank_message, syslog_message]"
  obtain c' where c': "processMessages steady_host (cluster_worker amd64 schema_check empty_environ) False ?ms ?c c'"
    using processMessages_total [of steady_host "cluster_worker amd64 schema_check empty_environ" ?ms ?c] by blast
  have k: "key_locked ?c \<subseteq> key_finished ?c"
    by (simp add: key_locked_def ks_has_def cluster_with_def empty_cluster_def)
  have d: "distinct (map event_id ?ms)"
    by (simp add: blank_message_def syslog_message_def blank_sample_def syslog_sample_def)
  have "processable amd64 (rm_Event syslog_message)" by (simp add: syslog_message_def sample_processable)
  then have "rm_ID syslog_message \<notin> unacked_ids empty_environ c'"
    using batch_outcome_any_schedule [OF empty_environ_safe c' k d] by (simp only: list.set ball_simps simp_thms)
  with c' show ?thesis unfolding sample_worker_def by blast
qed

text \<open>
  C8.  A JSON array is poison: the detector takes it for JSON, the parser never accepts it, and the
  message is neither completed nor acknowledged, so it stays pending whenever it is delivered.
\<close>

theorem json_array_never_acknowledged:
  fixes pf :: platform and m :: RawMessage and c :: cluster and env :: environ and cs :: compiled_schema
  defines "e \<equiv> rm_Event m"
  defines "c' \<equiv> processSingleMessageIdempotent steady_host (cluster_worker pf cs env) m c"
  assumes "safe_ttls env" and "to_lower (tables pf) (trim_space (re_Format e)) \<notin> {''syslog'', ''json'', ''csv''}"
    and "json_shape (trim_space (re_Payload e))" and "json_parse (trim_space (re_Payload e)) = Some (JArr vs)"
    and "event_id m \<notin> key_finished c"
  shows "dr_Format (Detect (tables pf) (re_Payload e) (re_Format e)) = ''json'' \<and> unacked_ids env c' = unacked_ids env c \<and>
    event_id m \<notin> key_finished c'"
proof -
  have "trim_space (re_Payload e) \<noteq> []" using assms(5) by (auto simp: json_shape_def)
  then have d: "dr_Format (Detect (tables pf) (re_Payload e) (re_Format e)) = ''json''"
    using assms(4-6) by (simp add: Detect_def detection_def Let_def json_valid_def)
  moreover have "is_err (dec_schema (trim_space (re_Payload e)))"
    using assms(6) by (simp add: dec_schema_def dec_struct_def)
  ultimately have "\<not> processable pf e" using processable_by_content [OF assms(4)] by simp
  then have "ledger_view env c' = ledger_view env c \<or> ledger_view env c' = (ledger_view env c)\<lparr>held := key_locked c - {event_id m}\<rparr>"
    unfolding c'_def cluster_refines [OF assms(3)] using assms(7) unfolding e_def by (simp add: ledger_process_def ledger_view_def)
  then show ?thesis using d assms(7) by (auto simp: ledger_view_def)
qed

theorem json_array_never_acknowledged_witness:
  "unacked_ids empty_environ (processSingleMessageIdempotent steady_host sample_worker array_message empty_cluster) =
     unacked_ids empty_environ empty_cluster"
proof -
  have h: "to_lower (tables amd64) (trim_space (re_Format (rm_Event array_message))) \<notin> {''syslog'', ''json'', ''csv''}"
    "json_shape (trim_space (re_Payload (rm_Event array_message)))"
    "json_parse (trim_space (re_Payload (rm_Event array_message))) = Some (JArr [])" by code_simp+
  have "event_id array_message \<notin> key_finished empty_cluster" by (simp add: key_finished_def ks_has_def empty_cluster_def)
  from json_array_never_acknowledged [OF empty_environ_safe h this] show ?thesis unfolding sample_worker_def by simp
qed

section \<open>From request to completion\<close>

text \<open>
  C9.  An event the ingestion service accepts is completed by the next round of the worker: with a
  batch not yet full, distinct event ids waiting, no live lock of an unfinished event and no
  reclaim due, the message of the event is read, and when the pipeline accepts it the event is marked done and the message
  acknowledged, in every schedule of the goroutines.
\<close>

theorem accepted_event_completed:
  fixes pf cs env and c c1 :: cluster
  defines "wk \<equiv> cluster_worker pf cs env" and "n \<equiv> raw_stream_name env" and "g \<equiv> c_GroupName (worker_config env)"
  assumes "safe_ttls env" and "runs_batches wk batch" and "ks_ready n g c"
    and "serve (ingestion_main (\<lambda>_ _ _. keyspace_client) keyspace_host env) ''POST'' ''/ingest'' body c = Some (r, c1)"
    and "rp_Status r = StatusAccepted"
    and "int (length (ks_fresh n g c)) < w_batchSize wk" and "distinct (map event_id (parse_messages (ks_fresh n g c1)))"
    and "key_locked c1 \<subseteq> key_finished c1" and "ks_now c1 \<le> t"
  shows "\<exists>req e m c2. decode_request body = Inr req \<and> made_from req e \<and>
    m \<in> set (parse_messages (ks_fresh n g c1)) \<and> rm_Event m = coerce_raw_event e \<and>
    rp_Body r = IngestBody \<lparr>ir_EventID = re_EventID e, ir_Status = ''accepted''\<rparr> \<and>
    loop_round steady_host wk batch (t, c1) = Inl (t, c2) \<and>
    (processable pf (rm_Event m) \<longrightarrow> event_id m \<in> key_finished c2 \<and> rm_ID m \<notin> unacked_ids env c2)"
  using accepted_completed assms unfolding wk_def n_def g_def by blast

theorem accepted_event_completed_witness:
  "\<exists>batch r c1 m c2. serve (ingestion_main (\<lambda>_ _ _. keyspace_client) keyspace_host empty_environ) ''POST'' ''/ingest'' csv_body
      (cluster_with [] []) = Some (r, c1) \<and> loop_round steady_host sample_worker batch (ks_now c1, c1) = Inl (ks_now c1, c2) \<and>
    m \<in> set (parse_messages (ks_fresh DefaultRawStreamName DefaultGroupName c1)) \<and> event_id m \<in> key_finished c2"
proof -
  let ?c = "cluster_with [] []" and ?wk = "cluster_worker amd64 schema_check empty_environ"
  have c: "ks_ready DefaultRawStreamName DefaultGroupName ?c" "ks_fresh DefaultRawStreamName DefaultGroupName ?c = []"
    by (simp_all add: ks_ready_def ks_fresh_def ks_stream_def cluster_with_def)
  obtain batch where b: "runs_batches ?wk batch" using runs_batches_exists by blast
  obtain r c1 where s: "serve (ingestion_main (\<lambda>_ _ _. keyspace_client) keyspace_host empty_environ) ''POST'' ''/ingest'' csv_body ?c = Some (r, c1)"
      "rp_Status r = StatusAccepted" "key_locked c1 = {}" using csv_accepted by blast
  obtain i e where "trimmed (stream_max_len empty_environ) [published_entry i e] (ks_fresh DefaultRawStreamName DefaultGroupName c1)"
    using accepted_published [OF s(1,2), of DefaultGroupName] c empty_names by (metis append_Nil)
  then have "ks_fresh DefaultRawStreamName DefaultGroupName c1 = [published_entry i e]"
    by (elim trimmed_last [of _ "[]", simplified]) simp
  then have "distinct (map event_id (parse_messages (ks_fresh DefaultRawStreamName DefaultGroupName c1)))" by simp
  then obtain req e m c2 where x: "decode_request csv_body = Inr req" "made_from req e"
      "m \<in> set (parse_messages (ks_fresh DefaultRawStreamName DefaultGroupName c1))" "rm_Event m = coerce_raw_event e"
      "loop_round steady_host ?wk batch (ks_now c1, c1) = Inl (ks_now c1, c2)"
      "processable amd64 (rm_Event m) \<longrightarrow> event_id m \<in> key_finished c2"
    using accepted_event_completed [OF empty_environ_safe b _ s(1,2), of "ks_now c1"] c s(3) cluster_batch_size [of amd64 schema_check empty_environ]
    unfolding empty_names by auto
  then have "event_id m \<in> key_finished c2" using csv_request_processable csv_body_decoded by simp
  then show ?thesis using s(1) x unfolding sample_worker_def by blast
qed

text \<open>
  C10.  Crash recovery: a due reclaim on a cluster without live locks of unfinished events looks at
  the first ten pending entries for every message of a batch.  If those to claim fit into a batch
  and their event ids differ, every one that has been idle for the threshold and is still in the
  stream is taken over, and completed and acknowledged if the pipeline accepts it.  A message
  leaves the pending list only so, or because the stream no longer holds it.  The next reclaim is
  due half a threshold later.
\<close>

theorem crashed_messages_recovered:
  fixes pf cs env and c :: cluster
  defines "wk \<equiv> cluster_worker pf cs env" and "n \<equiv> raw_stream_name env" and "g \<equiv> c_GroupName (worker_config env)"
  defines "x \<equiv> ks_stream c n"
  assumes "safe_ttls env" and "runs_batches wk batch" and "0 < w_claimIdleTime wk" and "t < ks_now c"
    and "sm_groups x g = Some (pos, pel)"
    and "int (length (filter (\<lambda>(y, t). \<not> in_stream x y \<or> idle_long wk c t) (scanned wk pel))) \<le> w_batchSize wk"
    and "key_locked c \<subseteq> key_finished c" and "distinct (map event_id (parse_messages (orphans wk x c pel)))"
  shows "\<exists>c'. claim_step steady_host wk batch t c = (ks_now c + w_claimIdleTime wk div 2, c') \<and>
    (\<forall>m \<in> set (parse_messages (orphans wk x c pel)). processable pf (rm_Event m) \<longrightarrow>
       event_id m \<in> key_finished c' \<and> rm_ID m \<notin> unacked_ids env c') \<and>
    (\<forall>i \<in> unacked_ids env c - unacked_ids env c'.
       (\<exists>m \<in> set (parse_messages (orphans wk x c pel)). rm_ID m = i \<and> event_id m \<in> key_finished c') \<or>
       (\<exists>y \<in> fst ` set pel. xm_ID y = i \<and> \<not> in_stream x y))"
  using assms(5-12) unfolding wk_def n_def g_def x_def by (rule orphans_recovered)

theorem crashed_messages_recovered_witness:
  "\<exists>batch c'. claim_step steady_host sample_worker batch 0 (time_passes (60 * Second) (cluster_with [published_entry ''1-0'' csv_sample] [])) =
      (90 * Second, c') \<and> ''evt_2'' \<in> key_finished c' \<and> ''1-0'' \<notin> unacked_ids empty_environ c'"
proof -
  let ?c = "time_passes (60 * Second) (cluster_with [published_entry ''1-0'' csv_sample] [])"
    and ?m = "\<lparr>rm_ID = ''1-0'', rm_Event = csv_sample\<rparr>" and ?pel = "[(published_entry ''1-0'' csv_sample, 0)]"
  let ?x = "ks_stream ?c DefaultRawStreamName"
  obtain batch where b: "runs_batches sample_worker batch" using runs_batches_exists by blast
  have v: "valid_raw_event csv_sample" by code_simp
  have x: "sm_groups ?x DefaultGroupName = Some (1, ?pel)" "in_stream ?x (published_entry ''1-0'' csv_sample)" "ks_now ?c = 60 * Second"
    by (simp_all add: time_passes_def cluster_with_def ks_stream_def empty_cluster_def in_stream_def)
  have s: "scanned sample_worker ?pel = ?pel" "idle_long sample_worker ?c 0"
    using cluster_batch_size [of amd64 schema_check empty_environ] x(3)
    by (simp_all add: scanned_def idle_long_def sample_durations sample_worker_def [symmetric])
  then have o: "parse_messages (orphans sample_worker ?x ?c ?pel) = [?m]"
    "length (filter (\<lambda>(y, t). \<not> in_stream ?x y \<or> idle_long sample_worker ?c t) (scanned sample_worker ?pel)) = 1"
    using x(2) v by (simp_all add: orphans_def)
  have "key_locked ?c \<subseteq> key_finished ?c"
    by (simp add: key_locked_def ks_has_def time_passes_def cluster_with_def empty_cluster_def)
  then obtain c' where "claim_step steady_host sample_worker batch 0 ?c = (60 * Second + w_claimIdleTime sample_worker div 2, c')"
      "\<forall>m \<in> set [?m]. processable amd64 (rm_Event m) \<longrightarrow> event_id m \<in> key_finished c' \<and> rm_ID m \<notin> unacked_ids empty_environ c'"
    using crashed_messages_recovered [OF empty_environ_safe b [unfolded sample_worker_def], of 0 ?c 1 ?pel]
      cluster_batch_size [of amd64 schema_check empty_environ] sample_durations(1) o x(1,3)
    unfolding sample_worker_def [symmetric] empty_names by (auto simp: Second_def)
  then show ?thesis using sample_processable(3) by (auto simp: sample_durations Second_def csv_sample_def)
qed

text \<open>
  C11.  A worker crashes after its claim: until the lifetime of the lock is over, a redelivery of the
  message changes nothing, even one that crash recovery brings (by default it comes after 60 of
  120 seconds); from then on it is processed, and completed and acknowledged if the pipeline
  accepts it.
\<close>

theorem redelivery_waits_for_lock_expiry:
  fixes pf cs env m d and c :: cluster
  defines "wk \<equiv> cluster_worker pf cs env"
  defines "c1 \<equiv> time_passes d (snd (redis_TryClaim keyspace_client (event_id m) (w_lockTTL wk) c))"
  defines "c2 \<equiv> processSingleMessageIdempotent steady_host wk m c1"
  assumes "safe_ttls env" and "event_id m \<notin> key_locked c" and "event_id m \<notin> key_finished c" and "0 \<le> d"
  shows "if d < w_lockTTL wk then ledger_view env c2 = ledger_view env c1
    else processable pf (rm_Event m) \<longrightarrow> event_id m \<in> key_finished c2 \<and> rm_ID m \<notin> unacked_ids env c2"
  unfolding wk_def c1_def c2_def by (rule redelivery_after_crash [OF assms(4-7)])

theorem redelivery_waits_for_lock_expiry_witness:
  "ledger_view empty_environ (processSingleMessageIdempotent steady_host sample_worker syslog_message
     (time_passes (60 * Second) (snd (redis_TryClaim keyspace_client ''evt_1'' (120 * Second) empty_cluster)))) =
   ledger_view empty_environ (time_passes (60 * Second) (snd (redis_TryClaim keyspace_client ''evt_1'' (120 * Second) empty_cluster)))"
proof -
  have "event_id syslog_message \<notin> key_locked empty_cluster" "event_id syslog_message \<notin> key_finished empty_cluster"
    by (simp_all add: key_locked_def key_finished_def ks_has_def empty_cluster_def)
  from redelivery_waits_for_lock_expiry [OF empty_environ_safe this, of "60 * Second" amd64 schema_check] show ?thesis
    unfolding sample_worker_def [symmetric] sample_durations by (simp add: Second_def syslog_message_def) (simp add: syslog_sample_def)
qed

text \<open>
  C12.  A lock is neither renewed nor owned: once the lifetime of a claim is over another worker gets
  the lock, and when the first one then fails and releases, it frees the lock of the second, so
  that a third claim succeeds while the second worker is still at work.
\<close>

theorem stale_release_frees_lock:
  fixes c :: cluster
  assumes "0 < ttl" and "ttl \<le> d" and "e \<notin> key_locked c"
  defines "c1 \<equiv> time_passes d (snd (redis_TryClaim keyspace_client e ttl c))"
  shows "fst (redis_TryClaim keyspace_client e ttl c1) = Inr True \<and> e \<in> key_locked (snd (redis_TryClaim keyspace_client e ttl c1)) \<and>
    fst (redis_TryClaim keyspace_client e ttl (snd (redis_Release keyspace_client e (snd (redis_TryClaim keyspace_client e ttl c1))))) = Inr True"
  unfolding c1_def by (rule stale_release [OF assms(1-3)])

theorem stale_release_frees_lock_witness:
  "''evt_1'' \<in> key_locked (snd (redis_TryClaim keyspace_client ''evt_1'' 5 (time_passes 7 (snd (redis_TryClaim keyspace_client ''evt_1'' 5 empty_cluster)))))"
proof -
  have "''evt_1'' \<notin> key_locked empty_cluster" by (simp add: key_locked_def ks_has_def empty_cluster_def)
  then show ?thesis using stale_release_frees_lock [of 5 7 "''evt_1''" empty_cluster] by simp
qed

section \<open>Interleavings\<close>

text \<open>
  C13.  In every interleaving of goroutines of workers on one cluster, as long as no lock expires,
  at most one goroutine at a time is past the claim and before the release or completion of an
  event, and the lock of that event is held.
\<close>

theorem processing_mutual_exclusion:
  assumes "safe_ttls env"
    and "system_reach steady_host (cluster_threads pf cs env ms) (start_system (cluster_threads pf cs env ms) c) n s"
    and "i < length ms" and "j < length ms" and "owner_pc (sy_pcs s ! i)" and "owner_pc (sy_pcs s ! j)"
    and "event_id (ms ! i) = event_id (ms ! j)"
  shows "i = j \<and> event_id (ms ! i) \<in> key_locked (sy_world s)"
  by (rule cluster_exclusive [OF assms])

lemma sample_claim:
  "\<exists>c. system_reach steady_host (cluster_threads amd64 schema_check empty_environ [syslog_message, syslog_message])
     (start_system (cluster_threads amd64 schema_check empty_environ [syslog_message, syslog_message]) empty_cluster) 3
     \<lparr>sy_pcs = [AtProcess, AtClaim], sy_world = c, sy_runs = []\<rparr>"
  using default_worker.first_claims [of syslog_message empty_cluster amd64 schema_check]
  by (simp add: cluster_threads_def key_locked_def key_finished_def ks_has_def empty_cluster_def)

theorem processing_mutual_exclusion_witness:
  "\<exists>c. system_reach steady_host (cluster_threads amd64 schema_check empty_environ [syslog_message, syslog_message])
     (start_system (cluster_threads amd64 schema_check empty_environ [syslog_message, syslog_message]) empty_cluster) 3
     \<lparr>sy_pcs = [AtProcess, AtClaim], sy_world = c, sy_runs = []\<rparr> \<and> event_id syslog_message \<in> key_locked c"
proof -
  obtain c where r: "system_reach steady_host (cluster_threads amd64 schema_check empty_environ [syslog_message, syslog_message])
     (start_system (cluster_threads amd64 schema_check empty_environ [syslog_message, syslog_message]) empty_cluster) 3
     \<lparr>sy_pcs = [AtProcess, AtClaim], sy_world = c, sy_runs = []\<rparr>" using sample_claim by blast
  from processing_mutual_exclusion [OF empty_environ_safe r, of 0 0] r show ?thesis by (auto simp: owner_pc_def)
qed

text \<open>
  C14.  In every interleaving on a cluster, as long as no lock expires, each event id is processed
  successfully at most once.
\<close>

theorem processed_at_most_once:
  assumes "safe_ttls env"
    and "system_reach steady_host (cluster_threads pf cs env ms) (start_system (cluster_threads pf cs env ms) c) n s"
  shows "distinct (map (\<lambda>i. event_id (snd (cluster_threads pf cs env ms ! i))) (sy_runs s))"
  using cluster_at_most_once [OF assms] by (simp add: thread_event_def [abs_def])

theorem processed_at_most_once_witness:
  "\<exists>c. system_reach steady_host (cluster_threads amd64 schema_check empty_environ [syslog_message, syslog_message])
     (start_system (cluster_threads amd64 schema_check empty_environ [syslog_message, syslog_message]) empty_cluster) 3
     \<lparr>sy_pcs = [AtProcess, AtClaim], sy_world = c, sy_runs = []\<rparr> \<and>
     distinct (map (\<lambda>i. event_id (snd (cluster_threads amd64 schema_check empty_environ [syslog_message, syslog_message] ! i)))
       (sy_runs \<lparr>sy_pcs = [AtProcess, AtClaim], sy_world = c, sy_runs = []\<rparr>))"
  using sample_claim processed_at_most_once [OF empty_environ_safe] by metis

text \<open>
  C15.  On the in-memory idempotency store, whose \<open>MarkDone\<close> also frees the lock, an interleaving
  of two deliveries of one event runs the pipeline successfully twice.
\<close>

theorem memory_store_double_processing:
  assumes "processable pf (rm_Event m)" and "event_id m \<notin> memory_locked w" and "event_id m \<notin> memory_finished w"
  shows "\<exists>n s. system_reach local_host [(local_worker pf cs, m), (local_worker pf cs, m)]
    (start_system [(local_worker pf cs, m), (local_worker pf cs, m)] w) n s \<and> sy_runs s = [0, 1]"
  by (rule local.double_run [OF TrueI assms])

theorem memory_store_double_processing_witness:
  "\<exists>n s. system_reach local_host [(local_worker amd64 schema_check, syslog_message), (local_worker amd64 schema_check, syslog_message)]
    (start_system [(local_worker amd64 schema_check, syslog_message), (local_worker amd64 schema_check, syslog_message)] local_start) n s \<and>
    sy_runs s = [0, 1]"
  by (rule memory_store_double_processing)
    (simp_all add: syslog_message_def sample_processable memory_locked_def memory_finished_def local_start_def flag_def)

section \<open>The pool and the consumer loop\<close>

text \<open>
  C16.  Without cancellation the goroutine pool keeps its bound and completes: at most
  \<open>concurrency\<close> handlers run at a time, some step is possible until \<open>processMessages\<close>
  returns, the number of steps is bounded, and on return every message has been handled.
\<close>

theorem pool_bounded_and_complete:
  assumes "pool_reach h wk False (start_pool msgs w) n s" and "1 < w_concurrency wk"
  shows "int (active s) \<le> w_concurrency wk \<and> n \<le> 11 * length msgs + 3 \<and>
    (po_main s \<noteq> Returned \<longrightarrow> (\<exists>s'. pool_step h wk False s s')) \<and>
    (po_main s = Returned \<longrightarrow> po_gos s = map (\<lambda>m. (m, Exited)) msgs)"
proof -
  have i: "pool_inv msgs s" "slots_inv wk s" using pool_reach_inv [OF assms(1)] pool_reach_slots [OF assms(1)] assms(2) by auto
  then have "int (active s) \<le> w_concurrency wk" by (auto simp: slots_inv_def split: if_splits)
  moreover have "n \<le> 11 * length msgs + 3" using pool_reach_bound [OF assms(1)] by simp
  ultimately show ?thesis using pool_progress [OF i] pool_complete [OF i] assms(2) by auto
qed

theorem pool_bounded_and_complete_witness:
  "w_concurrency (local_worker amd64 schema_check) = 4 \<and>
   (\<exists>s'. pool_step local_host (local_worker amd64 schema_check) False (start_pool [syslog_message] local_start) s')"
proof -
  have c: "w_concurrency (local_worker amd64 schema_check) = 4"
    by (simp add: local_worker_def NewWorker_def zero_config_def positive_or_def defaultConcurrency_def)
  have "po_main (start_pool [syslog_message] local_start) \<noteq> Returned" by (simp add: start_pool_def)
  then show ?thesis
    using pool_bounded_and_complete [where h = local_host and wk = "local_worker amd64 schema_check", OF pool_refl] c
    by simp
qed



text \<open>
  C18.  When the context is cancelled while the dispatcher waits in its select, the pool can reach
  a state in which \<open>wg.Wait\<close> blocks for ever: the \<open>break\<close> leaves the select, the goroutine runs
  without a slot, and its receive from the semaphore has nothing to receive.
\<close>

theorem cancelled_pool_can_block:
  "\<exists>n s. pool_reach h wk True (start_pool [m] w) n s \<and> po_main s = AtWait \<and> (\<nexists>s'. pool_step h wk True s s')"
  by (rule cancelled_pool_blocks)

text \<open>
  C19.  Once the consumer group exists, \<open>Start\<close> returns without error as soon as a round of its
  loop begins with the context cancelled.
\<close>

theorem start_returns_on_cancellation:
  assumes "EnsureGroup (w_buffer wk) (w_streamName wk) (w_groupName wk) w = (None, w1)"
    and "rounds h wk batch n (loop_start h wk w1) = Inl (t, w2)" and "fst (ctx_Err h w2) = Some er"
  shows "\<exists>w'. Start h wk batch w = Some (None, w')"
proof -
  obtain w' where "rounds h wk batch (Suc n) (loop_start h wk w1) = Inr w'"
    using rounds_cancelled [OF assms(2,3)] by blast
  then have "worker_loop h wk batch (fst (loop_start h wk w1)) (snd (loop_start h wk w1)) = Some w'"
    by (intro rounds_return [of _ _ _ "Suc n"]) simp
  then show ?thesis by (simp add: Start_loop assms(1))
qed

theorem start_returns_on_cancellation_witness:
  "\<exists>w'. Start (local_host\<lparr>ctx_Err := Pair (Some Cancelled)\<rparr>) (local_worker amd64 schema_check)
     (process_sequential local_host (local_worker amd64 schema_check)) local_start = Some (None, w')"
proof (rule start_returns_on_cancellation)
  show "EnsureGroup (w_buffer (local_worker amd64 schema_check)) (w_streamName (local_worker amd64 schema_check))
      (w_groupName (local_worker amd64 schema_check)) local_start = (None, local_start)"
    by (simp add: local_fields local_buffer_def)
  let ?h = "local_host\<lparr>ctx_Err := Pair (Some Cancelled)\<rparr>" and ?wk = "local_worker amd64 schema_check"
  show "rounds ?h ?wk (process_sequential local_host ?wk) 0 (loop_start ?h ?wk local_start) =
      Inl (fst (loop_start ?h ?wk local_start), snd (loop_start ?h ?wk local_start))" by simp
qed (simp add: local_host_def)

section \<open>Configuration\<close>

text \<open>
  C20.  The settings of a new worker: names are not empty, batch size and concurrency are positive
  for every configuration.  The reclaim threshold is 0 (crash recovery off) for at most 0
  milliseconds and exact up to 9223372036854; above, the product with a millisecond overflows, and
  up to 18446744073709 it is negative, which turns crash recovery off as well.  The lifetime of
  locks is the default for at most 0 seconds and exact up to 9223372036; above, up to 18446744073
  seconds, it is negative.
\<close>

theorem new_worker_settings:
  fixes buf :: "'w RawBuffer"
  assumes wk_def: "wk = NewWorker buf idem rs det drift eng vali cfg"
  defines "ms \<equiv> c_ClaimIdleMs cfg" and "s \<equiv> c_LockTTLSeconds cfg"
  shows "w_streamName wk \<noteq> [] \<and> w_groupName wk \<noteq> [] \<and> w_consumerName wk \<noteq> [] \<and>
    0 < w_batchSize wk \<and> 0 < w_concurrency wk \<and>
    (ms \<le> 0 \<longrightarrow> w_claimIdleTime wk = 0) \<and>
    (0 < ms \<and> ms \<le> 9223372036854 \<longrightarrow> w_claimIdleTime wk = ms * Millisecond) \<and>
    (9223372036854 < ms \<and> ms \<le> 18446744073709 \<longrightarrow> w_claimIdleTime wk < 0) \<and>
    (s \<le> 0 \<longrightarrow> w_lockTTL wk = 120 * Second) \<and>
    (0 < s \<and> s \<le> 9223372036 \<longrightarrow> w_lockTTL wk = s * Second) \<and>
    (9223372036 < s \<and> s \<le> 18446744073 \<longrightarrow> w_lockTTL wk < 0)"
proof -
  have "w_claimIdleTime wk = ms * Millisecond" if "0 < ms" "ms \<le> 9223372036854"
    using that wrap64_id [of "ms * Millisecond"] by (simp add: wk_def NewWorker_def ms_def in_int64_def Millisecond_def)
  moreover have "w_claimIdleTime wk < 0" if "9223372036854 < ms" "ms \<le> 18446744073709"
    using that wrap64_upper [of "ms * Millisecond"] by (simp add: wk_def NewWorker_def ms_def Millisecond_def)
  moreover have "w_lockTTL wk = s * Second" if "0 < s" "s \<le> 9223372036"
    using that wrap64_seconds [of s] by (simp add: wk_def NewWorker_def s_def positive_or_def)
  moreover have "w_lockTTL wk < 0" if "9223372036 < s" "s \<le> 18446744073"
    using that wrap64_upper [of "s * Second"] by (simp add: wk_def NewWorker_def s_def positive_or_def Second_def)
  ultimately show ?thesis
    by (auto simp: wk_def NewWorker_def ms_def s_def or_default_def positive_or_def DefaultRawStreamName_def DefaultGroupName_def
        defaultBatchSize_def defaultConcurrency_def defaultLockTTLSeconds_def default_ttls)
qed

theorem new_worker_settings_witness:
  "w_lockTTL (local_worker amd64 schema_check) = 120 * Second \<and> w_claimIdleTime (local_worker amd64 schema_check) = 0 \<and>
   w_claimIdleTime (NewWorker local_buffer None None (Detect ascii_tables) (Analyze ascii_tables) (production_engine amd64)
     (Validate schema_check) (zero_config\<lparr>c_ClaimIdleMs := 9223372036855\<rparr>)) < 0"
  using new_worker_settings [OF local_worker_def, of amd64 schema_check]
    new_worker_settings [OF refl, of local_buffer None None "Detect ascii_tables" "Analyze ascii_tables" "production_engine amd64"
      "Validate schema_check" "zero_config\<lparr>c_ClaimIdleMs := 9223372036855\<rparr>"]
  by (simp add: zero_config_def)

text \<open>
  C21.  Setting the crash-recovery threshold to 0 does not disable crash recovery: the worker command
  turns it, like an unset variable and every text that \<open>ParseInt\<close> reads as 0, into 60 seconds.  A
  text that \<open>ParseInt\<close> cuts to the greatest \<open>int64\<close> disables it: the threshold wraps to minus one
  millisecond.
\<close>

theorem claim_idle_zero_enables_recovery:
  fixes getenv :: environ
  defines "v \<equiv> parse_int64_lax (getenv ''RAW_EVENT_CLAIM_IDLE_MS'')"
  shows "(v = 0 \<longrightarrow> w_claimIdleTime (production_worker pf rdb st cs getenv) = 60 * Second) \<and>
    (v = int64_max \<longrightarrow> w_claimIdleTime (production_worker pf rdb st cs getenv) = - Millisecond)"
  unfolding v_def
  by (simp add: production_worker_def NewWorker_def worker_config_def Let_def wrap64_def int_word_sint Millisecond_def
      Second_def)

theorem claim_idle_zero_enables_recovery_witness:
  "w_claimIdleTime (production_worker amd64 keyspace_client (cluster_store ''b'') schema_check
     (\<lambda>v. if v = ''RAW_EVENT_CLAIM_IDLE_MS'' then ''0'' else [])) = 60 * Second \<and>
   w_claimIdleTime (production_worker amd64 keyspace_client (cluster_store ''b'') schema_check
     (\<lambda>v. if v = ''RAW_EVENT_CLAIM_IDLE_MS'' then ''99999999999999999999x'' else [])) = - Millisecond"
proof -
  have "parse_int64_lax ''0'' = 0" "parse_int64_lax ''99999999999999999999x'' = int64_max" by code_simp+
  then show ?thesis
    using claim_idle_zero_enables_recovery [of "\<lambda>v. if v = ''RAW_EVENT_CLAIM_IDLE_MS'' then ''0'' else []" amd64 keyspace_client "cluster_store ''b''" schema_check]
      claim_idle_zero_enables_recovery [of "\<lambda>v. if v = ''RAW_EVENT_CLAIM_IDLE_MS'' then ''99999999999999999999x'' else []" amd64 keyspace_client "cluster_store ''b''" schema_check]
    by simp
qed

text \<open>
  C22.  The worker command, exactly.  It goes on with the first ping Redis answers, and waits for ever
  if there is none; an error of MinIO only makes it use an empty store in memory.  It ends fatally,
  without its deferred calls, if and only if the schema cannot be compiled.  Otherwise its last
  calls are \<open>Close\<close> of the raw store and then of the Redis client: with an error if the consumer group
  cannot be created, without one when a round of the loop returns; and while no round does, it runs.
\<close>

theorem worker_command_outcome:
  fixes ext :: "'w externals" and h :: "'w host" and env :: environ and pf :: platform
  defines "redis \<equiv> x_redis ext (redis_address env) (env ''REDIS_PASSWORD'') 0"
  defines "rb \<equiv> NewRedisRawBuffer redis (stream_max_len env)" and "wk \<equiv> \<lambda>st cs. production_worker pf redis st cs env"
  shows "worker_main ext pf h batch env w = Some r \<longleftrightarrow>
   (\<exists>k w1 st w2. redis_Ping rb (after_pings h rb k w) = (None, w1) \<and>
      (\<forall>j < k. fst (redis_Ping rb (after_pings h rb j w)) \<noteq> None) \<and>
      (case NewMinIORawStore (x_minio ext) (minio_config env) w1 of
         (Inl _, w') \<Rightarrow> st = memory_store_in (fst (x_memory ext)) (snd (x_memory ext)) \<and> w2 = snd (x_memory ext) Map.empty w'
       | (Inr ms, w') \<Rightarrow> st = minio_raw_store ms \<and> w2 = w') \<and>
      (case NewValidator (x_readFile ext) (x_embedded ext) (x_addResource ext) (x_compile ext) [] of
         Inl err \<Rightarrow> r = Fatal err w2
       | Inr cs \<Rightarrow>
           (case EnsureGroup (w_buffer (wk st cs)) (w_streamName (wk st cs)) (w_groupName (wk st cs)) w2 of
              (Some e, w3) \<Rightarrow> r = Finished (Some (Wrap ''failed to ensure consumer group'' e)) (snd (RClose redis (snd (rs_Close st w3))))
            | (None, w3) \<Rightarrow> \<exists>n w4. rounds h (wk st cs) (batch (wk st cs)) n (loop_start h (wk st cs) w3) = Inr w4 \<and>
                 r = Finished None (snd (RClose redis (snd (rs_Close st w4)))))))"
proof -
  have ex: "(\<exists>a b c. (\<exists>k. P k a) \<and> Q a b c) \<longleftrightarrow> (\<exists>k a b c. P k a \<and> Q a b c)" for P :: "nat \<Rightarrow> 'w \<Rightarrow> bool" and Q
    by blast
  show ?thesis
    unfolding worker_main_iff await_redis_some close_all_calls choose_raw_store_iff
    unfolding worker_buffer_def worker_redis_def worker_schema_def rb_def redis_def wk_def Let_def ex conj_assoc by (rule refl)
qed

theorem worker_command_outcome_witness:
  "\<exists>w'. worker_main node_externals amd64 (keyspace_host\<lparr>ctx_Err := Pair (Some Cancelled)\<rparr>)
     (process_sequential keyspace_host) empty_environ idle_node = Some (Finished None w')"
proof -
  let ?h = "keyspace_host\<lparr>ctx_Err := Pair (Some Cancelled)\<rparr>"
    and ?redis = "x_redis node_externals (redis_address empty_environ) (empty_environ ''REDIS_PASSWORD'') 0"
  let ?rb = "NewRedisRawBuffer ?redis (stream_max_len empty_environ)"
  let ?st = "memory_store_in (fst node_cell) (snd node_cell)"
  let ?wk = "production_worker amd64 ?redis ?st schema_check empty_environ"
  obtain w3 where e: "EnsureGroup (w_buffer ?wk) (w_streamName ?wk) (w_groupName ?wk) idle_node = (None, w3)"
    using EnsureGroup_keyspace(1) [OF surjective_pairing, of "stream_max_len empty_environ" "w_streamName ?wk" "w_groupName ?wk" idle_node]
    by (cases "EnsureGroup (w_buffer ?wk) (w_streamName ?wk) (w_groupName ?wk) idle_node")
      (auto simp: production_fields redis_raw_buffer_def node_externals_def)
  have "redis_Ping ?rb (after_pings ?h ?rb 0 idle_node) = (None, idle_node)"
    by (simp add: node_externals_def redis_Ping_def NewRedisRawBuffer_def keyspace_client_def)
  moreover have "case NewMinIORawStore (x_minio node_externals) (minio_config empty_environ) idle_node of
      (Inl _, w') \<Rightarrow> ?st = memory_store_in (fst (x_memory node_externals)) (snd (x_memory node_externals)) \<and>
        idle_node = snd (x_memory node_externals) Map.empty w'
    | (Inr ms, w') \<Rightarrow> ?st = minio_raw_store ms \<and> idle_node = w'"
    by (simp add: NewMinIORawStore_def Let_def node_externals_def node_cell_def idle_node_def)
  moreover have "NewValidator (x_readFile node_externals) (x_embedded node_externals) (x_addResource node_externals)
      (x_compile node_externals) [] = Inr schema_check"
    by (simp add: NewValidator_def node_externals_def or_default_def)
  moreover have "\<exists>n w4. rounds ?h ?wk (process_sequential keyspace_host ?wk) n (loop_start ?h ?wk w3) = Inr w4"
    by (rule exI [of _ 1]) (simp add: loop_round_def)
  ultimately show ?thesis using e unfolding worker_command_outcome by fastforce
qed

section \<open>Streams\<close>

text \<open>
  C23.  Through a Redis server that keeps the stream laws, events published one after the other on a
  drained stream are read back by the consumer group, the same events in the same order, except
  that a length cap may cost the oldest of them: at least as many as the cap are kept, and all of
  them without a cap or when they fit into it.
\<close>

theorem published_events_read_back:
  assumes "redis_stream client stream grp ready fresh pending" and "ready w" and "fresh w = []"
    and "or_default s DefaultRawStreamName = stream" and "or_default g DefaultGroupName = grp"
    and "0 < n" and "int (length es) \<le> n" and "\<forall>e \<in> set es. valid_raw_event e"
  shows "\<exists>ms w'. ReadGroup (redis_raw_buffer (NewRedisRawBuffer client m)) s g c n b
      (publish_all (redis_raw_buffer (NewRedisRawBuffer client m)) s es w) = (Inr ms, w') \<and>
      trimmed m es (map rm_Event ms) \<and> (m \<le> 0 \<or> int (length es) \<le> m \<longrightarrow> map rm_Event ms = es)"
proof -
  obtain ms w' fs where r: "ReadGroup (redis_raw_buffer (NewRedisRawBuffer client m)) s g c n b
      (publish_all (redis_raw_buffer (NewRedisRawBuffer client m)) s es w) = (Inr ms, w')" "trimmed m es fs" "map rm_Event ms = map coerce_raw_event fs"
    using redis_stream.publish_then_read [OF assms(1-7)] by blast
  have "set fs \<subseteq> set es" using r(2) by (auto simp: trimmed_def dest: set_mono_suffix)
  then have "\<forall>e \<in> set fs. coerce_raw_event e = e" using assms(8) coerce_valid_raw_event by blast
  then have "map rm_Event ms = fs" using r(3) by (simp add: map_idI)
  then show ?thesis using r(1,2) trimmed_all [OF r(2)] by blast
qed

theorem published_events_read_back_witness:
  "\<exists>ms w'. ReadGroup (redis_raw_buffer (NewRedisRawBuffer keyspace_client 2)) [] [] ''worker-1'' 10 0
      (publish_all (redis_raw_buffer (NewRedisRawBuffer keyspace_client 2)) [] [syslog_sample, csv_sample] (cluster_with [] [])) =
        (Inr ms, w') \<and> map rm_Event ms = [syslog_sample, csv_sample]"
proof -
  have c: "ks_ready DefaultRawStreamName DefaultGroupName (cluster_with [] [])"
    "ks_fresh DefaultRawStreamName DefaultGroupName (cluster_with [] []) = []"
    by (simp_all add: ks_ready_def ks_fresh_def ks_stream_def cluster_with_def)
  have "valid_raw_event syslog_sample" "valid_raw_event csv_sample" by code_simp+
  then have v: "\<forall>e \<in> set [syslog_sample, csv_sample]. valid_raw_event e" by simp
  have d: "or_default [] DefaultRawStreamName = DefaultRawStreamName" "or_default [] DefaultGroupName = DefaultGroupName"
    by (simp_all add: or_default_def)
  have "0 < (10 :: int)" "int (length [syslog_sample, csv_sample]) \<le> 10" by simp_all
  from published_events_read_back [OF keyspace_stream.redis_stream_axioms c d this v, of 2 "''worker-1''" 0]
  show ?thesis by auto
qed

text \<open>
  C24.  Creating the consumer group is idempotent: on a reachable server \<open>EnsureGroup\<close> reports no
  error and leaves an existing group as it is.  A new group starts behind the last entry, so
  whatever was published before it is never delivered to it.
\<close>

theorem ensure_group_idempotent:
  assumes "redis_EnsureGroup (NewRedisRawBuffer keyspace_client m) s grp w = (r, w')"
  shows "r = None \<and>
    (sm_groups (ks_stream w (or_default s DefaultRawStreamName)) (or_default grp DefaultGroupName) \<noteq> None \<longrightarrow> w' = w) \<and>
    (sm_groups (ks_stream w (or_default s DefaultRawStreamName)) (or_default grp DefaultGroupName) = None \<longrightarrow>
       ks_fresh (or_default s DefaultRawStreamName) (or_default grp DefaultGroupName) w' = [])"
  using EnsureGroup_keyspace [OF assms] by blast

theorem ensure_group_idempotent_witness:
  "fst (redis_EnsureGroup (NewRedisRawBuffer keyspace_client 0) [] [] (cluster_with [] [stream_entry ''1-0'' []])) = None \<and>
   snd (redis_EnsureGroup (NewRedisRawBuffer keyspace_client 0) [] [] (cluster_with [] [stream_entry ''1-0'' []])) =
     cluster_with [] [stream_entry ''1-0'' []]"
  using ensure_group_idempotent [OF surjective_pairing, of 0 "[]" "[]" "cluster_with [] [stream_entry ''1-0'' []]"]
  by (simp add: or_default_def cluster_with_def ks_stream_def)

text \<open>
  C25.  What a round without a due reclaim does with the entries it reads, if their ids and event ids
  differ and no unfinished event is locked: an entry that decodes to an event is completed and
  acknowledged when the pipeline accepts it; a malformed entry, without a payload string or with one
  that does not decode, is dropped without acknowledgement and stays in the pending list.
\<close>

theorem malformed_entries_stay_pending:
  fixes pf cs env and c :: cluster
  defines "wk \<equiv> cluster_worker pf cs env" and "n \<equiv> raw_stream_name env" and "g \<equiv> c_GroupName (worker_config env)"
  defines "xs \<equiv> take (nat (w_batchSize wk)) (ks_fresh n g c)"
  assumes "safe_ttls env" and "runs_batches wk batch" and "ks_ready n g c" and "ks_now c \<le> t"
    and "key_locked c \<subseteq> key_finished c" and "distinct (map event_id (parse_messages xs))" and "distinct (map xm_ID xs)"
  shows "\<exists>c2. loop_round steady_host wk batch (t, c) = Inl (t, c2) \<and>
    (\<forall>x \<in> set xs. case parseXMessage x of
       None \<Rightarrow> xm_ID x \<in> unacked_ids env c2
     | Some m \<Rightarrow> processable pf (rm_Event m) \<longrightarrow> event_id m \<in> key_finished c2 \<and> xm_ID x \<notin> unacked_ids env c2)"
  using assms(5-11) unfolding wk_def n_def g_def xs_def by (rule round_outcome)

theorem malformed_entries_stay_pending_witness:
  "\<exists>batch c2. loop_round steady_host sample_worker batch (0, cluster_with [] [stream_entry ''1-0'' [], published_entry ''2-0'' csv_sample]) =
      Inl (0, c2) \<and> ''1-0'' \<in> unacked_ids empty_environ c2 \<and> ''2-0'' \<notin> unacked_ids empty_environ c2 \<and> ''evt_2'' \<in> key_finished c2"
proof -
  let ?xs = "[stream_entry ''1-0'' [], published_entry ''2-0'' csv_sample]" and ?m = "\<lparr>rm_ID = ''2-0'', rm_Event = csv_sample\<rparr>"
  let ?c = "cluster_with [] ?xs"
  obtain batch where b: "runs_batches sample_worker batch" using runs_batches_exists by blast
  have v: "valid_raw_event csv_sample" by code_simp
  have p: "parseXMessage (stream_entry ''1-0'' []) = None" "parseXMessage (published_entry ''2-0'' csv_sample) = Some ?m"
    using v by (simp_all add: parseXMessage_def [of "stream_entry _ _"] parse_published) (simp add: stream_entry_def)
  have "w_batchSize sample_worker = 10"
    by (simp add: sample_worker_def cluster_worker_def production_worker_def NewWorker_def worker_config_def Let_def empty_environ_def
        parse_int64_lax_def positive_or_def defaultBatchSize_def)
  moreover have "ks_fresh DefaultRawStreamName DefaultGroupName ?c = ?xs" by (simp add: ks_fresh_def ks_stream_def cluster_with_def)
  ultimately have x: "take (nat (w_batchSize sample_worker)) (ks_fresh DefaultRawStreamName DefaultGroupName ?c) = ?xs" by simp
  have d: "distinct (map event_id (parse_messages ?xs))" "distinct (map xm_ID ?xs)"
    using p by (simp_all add: parse_messages_def map_filter_def) (simp add: stream_entry_def)
  have c: "ks_ready DefaultRawStreamName DefaultGroupName ?c" "ks_now ?c \<le> 0" "key_locked ?c \<subseteq> key_finished ?c"
    by (simp_all add: ks_ready_def ks_stream_def sm_added_def key_locked_def ks_has_def cluster_with_def empty_cluster_def)
  obtain c2 where "loop_round steady_host sample_worker batch (0, ?c) = Inl (0, c2)"
      "\<forall>x \<in> set ?xs. case parseXMessage x of None \<Rightarrow> xm_ID x \<in> unacked_ids empty_environ c2
        | Some m \<Rightarrow> processable amd64 (rm_Event m) \<longrightarrow> event_id m \<in> key_finished c2 \<and> xm_ID x \<notin> unacked_ids empty_environ c2"
    using malformed_entries_stay_pending [OF empty_environ_safe b [unfolded sample_worker_def], of ?c 0, folded sample_worker_def,
        unfolded empty_names x, OF c d] by blast
  then show ?thesis using p sample_processable(3) by (auto simp: csv_sample_def stream_entry_def)
qed

section \<open>Ingestion\<close>

text \<open>
  C26.  A run of the ingestion command on a reachable Redis server answers every HTTP request, and
  publishes exactly what it accepts: one event per accepted request for an event, single or in a
  batch, in the order of arrival and with the request's format, source and payload unchanged;
  the ids in its responses are those of the published events.  What waits for the consumer group
  afterwards is what waited before and the published events, except for the oldest entries that
  the cap \<open>RAW_EVENT_STREAM_MAXLEN\<close> may cost; without a cap nothing is lost.
\<close>

theorem ingestion_run_publishes_accepted:
  fixes c :: "'a keyspace_scheme" and env :: environ
  defines "n \<equiv> raw_stream_name env"
  assumes "ks_ready n g c" and "listen (CHR '':'' # ingestion_port env) c = (None, c)"
  shows "\<exists>rs c'. ingestion_run (\<lambda>_ _ _. keyspace_client) listen keyspace_host env qs c = Finished rs c' \<and>
    length rs = length qs \<and> ks_pending n g c' = ks_pending n g c \<and>
    (\<exists>es xs. list_all2 made_from (concat (map accepted_requests qs)) es \<and>
       concat (map response_ids rs) = map re_EventID es \<and> entries_of es xs \<and>
       trimmed (stream_max_len env) (ks_fresh n g c @ xs) (ks_fresh n g c'))"
  using assms(2,3) unfolding n_def by (rule ingestion_run_appends)

theorem ingestion_run_publishes_accepted_witness:
  "\<exists>rs c' e1 e2. ingestion_run (\<lambda>_ _ _. keyspace_client) (\<lambda>_ w. (None, w)) keyspace_host empty_environ
      [csv_post, health_check, csv_post] (cluster_with [] []) = Finished rs c' \<and>
    made_from csv_request e1 \<and> made_from csv_request e2 \<and>
    entries_of [e1, e2] (ks_fresh DefaultRawStreamName DefaultGroupName c')"
proof -
  have c: "ks_ready DefaultRawStreamName DefaultGroupName (cluster_with [] [])"
      "ks_fresh DefaultRawStreamName DefaultGroupName (cluster_with [] []) = []"
    by (simp_all add: ks_ready_def ks_fresh_def ks_stream_def cluster_with_def)
  have a: "concat (map accepted_requests [csv_post, health_check, csv_post]) = [csv_request, csv_request]"
    by (simp add: accepted_requests_def csv_post_def health_check_def csv_body_decoded) (simp add: csv_request_def csv_sample_def)
  have m: "stream_max_len empty_environ \<le> 0" by (simp add: stream_max_len_def empty_environ_def parse_int64_lax_def)
  obtain rs c' es xs where r: "ingestion_run (\<lambda>_ _ _. keyspace_client) (\<lambda>_ w. (None, w)) keyspace_host empty_environ
      [csv_post, health_check, csv_post] (cluster_with [] []) = Finished rs c'"
      "list_all2 made_from [csv_request, csv_request] es" "entries_of es xs"
      "trimmed (stream_max_len empty_environ) (ks_fresh DefaultRawStreamName DefaultGroupName (cluster_with [] []) @ xs)
         (ks_fresh DefaultRawStreamName DefaultGroupName c')"
    using ingestion_run_publishes_accepted [of empty_environ DefaultGroupName "cluster_with [] []" "\<lambda>_ w. (None, w)"
        "[csv_post, health_check, csv_post]"] c
    unfolding a empty_names by auto
  have "ks_fresh DefaultRawStreamName DefaultGroupName c' = xs" using trimmed_all [OF r(4)] m c(2) by simp
  moreover obtain e1 e2 where "es = [e1, e2]" "made_from csv_request e1" "made_from csv_request e2"
    using r(2) by (auto simp: list_all2_Cons1)
  ultimately show ?thesis using r(1,3) by blast
qed

text \<open>
  C27.  HTTP requests in flight at the same time do not mix: in every interleaving of their handlers
  on a reachable server, what is added to the stream is what the handlers published, one after the
  other, except for the oldest unread entries that the cap of the stream may cost; the events of
  an answered request are those it asked for, in its order, and its response carries their ids.
  The handlers take a bounded number of steps.
\<close>

theorem concurrent_requests_published:
  fixes c :: "'a keyspace_scheme" and env :: environ
  defines "n \<equiv> raw_stream_name env"
  assumes "ks_ready n g c" and "server_reach keyspace_host (keyspace_service env) qs (start_server qs c) k s"
  shows "(\<exists>xs. entries_of (map snd (sv_log s)) xs \<and>
      trimmed (stream_max_len env) (ks_fresh n g c @ xs) (ks_fresh n g (sv_world s))) \<and>
    (\<forall>i r. i < length qs \<and> sv_pcs s ! i = Replied r \<longrightarrow>
      list_all2 made_from (accepted_requests (qs ! i)) (published_by i (sv_log s)) \<and>
      response_ids r = map re_EventID (published_by i (sv_log s))) \<and>
    k \<le> (\<Sum>q \<leftarrow> qs. 2 * length (accepted_requests q) + 2)"
  using interleaved_requests [OF assms(2) [unfolded n_def] assms(3)] server_steps_bound [OF assms(3)] unfolding n_def by blast

theorem concurrent_requests_published_witness:
  "\<exists>k s. server_reach keyspace_host (keyspace_service empty_environ) [health_check, csv_post]
      (start_server [health_check, csv_post] (cluster_with [] [])) k s \<and> k \<le> 6 \<and>
    sv_pcs s ! 0 = Replied (Some (json_response StatusOK (HealthBody ''ok''))) \<and> published_by 0 (sv_log s) = []"
proof -
  let ?qs = "[health_check, csv_post]" and ?c = "cluster_with [] []"
  have a: "accepted_requests health_check = []" by (simp add: accepted_requests_def health_check_def)
  have p: "accepted_requests csv_post = [csv_request]"
    by (simp add: accepted_requests_def csv_post_def csv_body_decoded) (simp add: csv_request_def csv_sample_def)
  have m: "handler_step keyspace_host (keyspace_service empty_environ) (?qs ! 0) (sv_pcs (start_server ?qs ?c) ! 0, sv_world (start_server ?qs ?c)) =
      (Replied (Some (json_response StatusOK (HealthBody ''ok''))), ?c)"
    using a by (simp add: handler_step_def start_server_def serve_def health_check_def HandleHealth_def)
  have "\<not> replied (sv_pcs (start_server ?qs ?c) ! 0)" "0 < length (sv_pcs (start_server ?qs ?c))"
    by (simp_all add: start_server_def replied_def)
  from server_next [OF server_refl handler_moves [OF this(2,1) m]]
  obtain s where s: "server_reach keyspace_host (keyspace_service empty_environ) ?qs (start_server ?qs ?c) 1 s"
      "sv_pcs s ! 0 = Replied (Some (json_response StatusOK (HealthBody ''ok'')))"
    by (auto simp: start_server_def)
  have "ks_ready DefaultRawStreamName DefaultGroupName ?c" by (simp add: ks_ready_def ks_stream_def cluster_with_def)
  note c = concurrent_requests_published [of empty_environ, OF this [folded empty_names(1)] s(1)]
  have "list_all2 made_from (accepted_requests (?qs ! 0)) (published_by 0 (sv_log s))"
    using c [THEN conjunct2, THEN conjunct1, THEN spec, of 0] s(2) by auto
  then have "published_by 0 (sv_log s) = []" using a by simp
  then show ?thesis using s c a p by (intro exI [of _ 1] exI [of _ s]) simp
qed

text \<open>
  C28.  The ingest endpoint answers 400 exactly for a body that does not decode to a request with a
  payload, and then nothing has happened; 202 exactly when the service accepted the event, with a
  body from which a JSON reader gets its id; 500 otherwise.
\<close>

theorem ingest_endpoint_statuses:
  assumes "HandleIngest (ingestion_service h s) body w = (r, w')"
  shows "(rp_Status r = StatusBadRequest \<longleftrightarrow>
      (case decode_request body of Inl _ \<Rightarrow> True | Inr req \<Rightarrow> iq_Payload req = [])) \<and>
    (rp_Status r = StatusBadRequest \<longrightarrow> w' = w) \<and>
    (rp_Status r = StatusAccepted \<longleftrightarrow>
      (\<exists>req i. decode_request body = Inr req \<and> fst (service_Ingest h s req w) = Inr i \<and>
         rp_Body r = IngestBody \<lparr>ir_EventID = i, ir_Status = ''accepted''\<rparr> \<and>
         json_parse (body_bytes lib (rp_Body r)) =
           Some (JObj [(''event_id'', JStr (coerce_utf8 i)), (''status'', JStr ''accepted'')]))) \<and>
    rp_Status r \<in> {StatusAccepted, StatusBadRequest, StatusInternalServerError}"
proof (cases "decode_request body")
  case (Inl er)
  then show ?thesis using assms
    by (auto simp: HandleIngest_def writeJSONError_def json_response_def StatusBadRequest_def StatusAccepted_def)
next
  case (Inr req)
  obtain x w1 where x: "service_Ingest h s req w = (x, w1)" by force
  have "iq_Payload req = [] \<Longrightarrow> isl x" using x by (auto simp: service_Ingest_def)
  then show ?thesis using assms Inr x
    by (cases "iq_Payload req = []"; cases x)
      (auto simp: HandleIngest_def writeJSONError_def json_response_def StatusBadRequest_def StatusAccepted_def
        StatusInternalServerError_def ingestion_service_def accepted_body_reads_back)
qed

theorem ingest_endpoint_statuses_witness:
  "rp_Status (fst (HandleIngest (ingestion_service keyspace_host (NewService None [])) ''{}'' empty_cluster)) = StatusBadRequest"
proof -
  have "decode_request ''{}'' = Inr zero_request" by code_simp
  then show ?thesis
    using ingest_endpoint_statuses [OF surjective_pairing, of keyspace_host "NewService None []" "''{}''" empty_cluster "\<lambda>_. []"]
    by (simp add: zero_request_def)
qed

text \<open>
  C29.  The batch endpoint answers 400 exactly for a body that does not decode to a non-empty list
  of requests with payloads, and then nothing has happened; 202 comes with a body from which a
  JSON reader gets the count and the ids of the service, one per request.
\<close>

theorem batch_endpoint_statuses:
  assumes "HandleIngestBatch (ingestion_service h s) body w = (r, w')"
  shows "(rp_Status r = StatusBadRequest \<longleftrightarrow>
      (case decode_batch body of Inl _ \<Rightarrow> True | Inr reqs \<Rightarrow> reqs = [] \<or> (\<exists>q \<in> set reqs. iq_Payload q = []))) \<and>
    (rp_Status r = StatusBadRequest \<longrightarrow> w' = w) \<and>
    (rp_Status r = StatusAccepted \<longrightarrow>
      (\<exists>reqs ids. decode_batch body = Inr reqs \<and> fst (service_IngestBatch h s reqs w) = Inr ids \<and> length ids = length reqs \<and>
         json_parse (body_bytes lib (rp_Body r)) = Some (JObj [(''status'', JStr ''accepted''),
           (''count'', int_json (int (length reqs))), (''event_ids'', JArr (map (JStr \<circ> coerce_utf8) ids))]))) \<and>
    rp_Status r \<in> {StatusAccepted, StatusBadRequest, StatusInternalServerError}"
proof (cases "decode_batch body")
  case (Inl er)
  then show ?thesis using assms
    by (auto simp: HandleIngestBatch_def writeJSONError_def json_response_def StatusBadRequest_def StatusAccepted_def)
next
  case (Inr reqs)
  note st = StatusBadRequest_def StatusAccepted_def StatusInternalServerError_def
  show ?thesis
  proof (cases "first_empty 0 reqs")
    case (Some i)
    then have "\<exists>q \<in> set reqs. iq_Payload q = []" using first_empty_None by (metis option.distinct(1))
    then show ?thesis using assms Inr Some
      by (auto simp: HandleIngestBatch_def writeJSONError_def json_response_def st split: if_splits)
  next
    case None
    then have ne: "\<forall>q \<in> set reqs. iq_Payload q \<noteq> []" by (simp add: first_empty_None)
    obtain x w1 where x: "service_IngestBatch h s reqs w = (x, w1)" by force
    have "length ids = length reqs" if "x = Inr ids" "reqs \<noteq> []" for ids
      using that x None ingest_loop_length [of h s reqs "[]" w ids w1] by (simp add: service_IngestBatch_def)
    then show ?thesis using assms Inr None ne x
      by (cases "reqs = []"; cases x)
        (auto simp: HandleIngestBatch_def writeJSONError_def json_response_def st ingestion_service_def accepted_body_reads_back)
  qed
qed

theorem batch_endpoint_statuses_witness:
  "rp_Status (fst (HandleIngestBatch (ingestion_service keyspace_host (NewService None [])) ''[]'' empty_cluster)) = StatusBadRequest"
proof -
  have "decode_batch ''[]'' = Inr []" by code_simp
  then show ?thesis
    using batch_endpoint_statuses [OF surjective_pairing, of keyspace_host "NewService None []" "''[]''" empty_cluster "\<lambda>_. []"] by simp
qed

section \<open>Stores\<close>

text \<open>
  C30.  Marshalling a raw event and reading it back gives the event, with ill-formed UTF-8
  replaced as \<open>encoding/json\<close> does; a well-formed event comes back unchanged.
\<close>

theorem raw_event_json_round_trip:
  "dec_raw_event (json_print (raw_event_json e)) = Inr (coerce_raw_event e) \<and> (valid_raw_event e \<longrightarrow> coerce_raw_event e = e)"
  by (simp add: dec_raw_event_print)

theorem raw_event_json_round_trip_witness:
  "dec_raw_event (json_print (raw_event_json csv_sample)) = Inr csv_sample"
proof -
  have "valid_raw_event csv_sample" by code_simp
  then show ?thesis using raw_event_json_round_trip [of csv_sample] by simp
qed

text \<open>
  C31.  The object store keeps what is written: after any sequence of writes through a client that
  keeps the bucket laws, \<open>Get\<close> returns for an id the event last written under it; an earlier event
  of the same id is overwritten.
\<close>

theorem object_store_returns_last_write:
  fixes client :: "'w minio_client" and bucket :: string
  assumes "object_bucket client bucket objects" and "re_EventID e \<noteq> []"
    and "\<forall>e' \<in> set later. re_EventID e' \<noteq> re_EventID e"
  defines "st \<equiv> \<lparr>ms_client = client, ms_bucket = bucket\<rparr>"
  shows "fst (minio_Get st (re_EventID e) (fold (\<lambda>e w. snd (minio_Put st (Some e) w)) (earlier @ e # later) w)) =
    Inr (coerce_raw_event e)"
  unfolding st_def by (rule object_bucket.minio_last_write [OF assms(1-3)])

theorem object_store_returns_last_write_witness:
  "fst (minio_Get \<lparr>ms_client = map_client, ms_bucket = ''raw-events''\<rparr> ''evt_1''
      (fold (\<lambda>e w. snd (minio_Put \<lparr>ms_client = map_client, ms_bucket = ''raw-events''\<rparr> (Some e) w))
        [syslog_sample\<lparr>re_Payload := ''old''\<rparr>, syslog_sample, csv_sample] Map.empty)) = Inr (coerce_raw_event syslog_sample)"
  using object_store_returns_last_write [OF map_bucket.object_bucket_axioms, of syslog_sample "[csv_sample]" "''raw-events''"
      "[syslog_sample\<lparr>re_Payload := ''old''\<rparr>]" Map.empty]
  by (simp add: syslog_sample_def csv_sample_def)

text \<open>
  C32.  Only one caller can hold the processing lock: on a Redis server that keeps the key laws, and
  as long as no key expires, after a claim and any sequence of calls for any events that does not
  release it, a claim of the same event is refused; after a release it succeeds.
\<close>

theorem redis_lock_exclusive:
  assumes "redis_keys client live" and "0 < ttl" and "Release e \<notin> set ops"
  shows "fst (redis_TryClaim client e ttl (run_ops (redis_idempotency client) ttl ops (snd (redis_TryClaim client e ttl w)))) = Inr False \<and>
    fst (redis_TryClaim client e ttl (snd (redis_Release client e w))) = Inr True"
proof -
  have o: "TryClaimProcessing (redis_idempotency client) = redis_TryClaim client"
    "ReleaseProcessing (redis_idempotency client) = redis_Release client" by (simp_all add: redis_idempotency_def)
  note c = redis_keys.redis_contract [OF assms(1)]
  from idempotency_store.exclusive [OF c assms(2,3), of w] idempotency_store.reclaim [OF c assms(2), of e w]
  show ?thesis by (simp add: o)
qed

theorem redis_lock_exclusive_witness:
  "fst (redis_TryClaim keyspace_client ''evt_1'' 1 (run_ops (redis_idempotency keyspace_client) 1 [Mark ''evt_1'', Release ''evt_2'']
     (snd (redis_TryClaim keyspace_client ''evt_1'' 1 empty_cluster)))) = Inr False"
  using redis_lock_exclusive [OF keyspace.redis_keys_axioms, of 1 "''evt_1''" "[Mark ''evt_1'', Release ''evt_2'']" empty_cluster]
  by simp

text \<open>
  C33.  A completion marker persists: once an event is marked done, \<open>IsDone\<close> answers true after any
  sequence of calls, on Redis (as long as no marker expires) and in memory.
\<close>

theorem completion_marker_persists:
  assumes "redis_keys client live" and "0 < ttl"
  shows "fst (redis_IsDone client e (run_ops (redis_idempotency client) ttl ops (snd (redis_MarkDone client e ttl w)))) = Inr True \<and>
    fst (memory_IsDone e (run_ops memory_idempotency ttl ops (snd (memory_MarkDone e ttl m)))) = Inr True"
proof -
  have o: "IsDone (redis_idempotency client) = redis_IsDone client" "MarkDone (redis_idempotency client) = redis_MarkDone client"
    "IsDone memory_idempotency = memory_IsDone" "MarkDone memory_idempotency = memory_MarkDone"
    by (simp_all add: redis_idempotency_def memory_idempotency_def)
  note c = redis_keys.redis_contract [OF assms(1)]
  from idempotency_store.marked_is_done [OF c assms(2), of e ops w] memory.marked_is_done [OF assms(2), of e ops m]
  show ?thesis by (simp add: o)
qed

theorem completion_marker_persists_witness:
  "fst (redis_IsDone keyspace_client ''evt_1'' (run_ops (redis_idempotency keyspace_client) 1 [Release ''evt_1'', Claim ''evt_1'']
     (snd (redis_MarkDone keyspace_client ''evt_1'' 1 empty_cluster)))) = Inr True"
  using completion_marker_persists [OF keyspace.redis_keys_axioms, of 1 "''evt_1''" "[Release ''evt_1'', Claim ''evt_1'']" empty_cluster NewMemoryIdempotencyStore]
  by simp

section \<open>Detection and parsing\<close>

text \<open>
  C34.  The detector names one of four formats with a confidence in 0..1 that is 0 exactly for an
  unknown format, and drift analysis calls a detection stable exactly when the format is known.
\<close>

theorem detector_and_drift_agree:
  fixes uc :: unicode and payload hint :: string and e :: RawEvent
  defines "d \<equiv> Detect uc payload hint"
  shows "dr_Format d \<in> {FormatSyslog, FormatJSON, FormatCSV, FormatUnknown} \<and> 0 \<le> dr_Confidence d \<and> dr_Confidence d \<le> 1 \<and>
    (dr_Confidence d = 0 \<longleftrightarrow> dr_Format d = FormatUnknown) \<and>
    df_Status (fst (Analyze uc None e d)) = (if dr_Format d = FormatUnknown then DriftStatusUnknown else DriftStatusStable) \<and>
    df_Confidence (fst (Analyze uc None e d)) = dr_Confidence d"
  using Detect_formats [of uc payload hint] Detect_confidence [of uc payload hint] Analyze_Detect [of uc e payload hint]
  unfolding d_def by (auto simp: Analyze_def Let_def split: if_splits)

text \<open>
  C35.  What the registered parsers return is well formed: the event is present, its timestamp, source,
  action, category, severity and protocol are not empty, and its ports are Go integers.
\<close>

theorem parsed_events_well_formed:
  assumes "production_engine pf now e (Detect (tables pf) payload hint) = Inr r"
  shows "\<exists>x. r = Some x \<and> complete_parsed x \<and> int64_ports x"
  by (rule engine_contract [OF assms])

theorem parsed_events_well_formed_witness:
  "\<exists>x. production_engine amd64 (\<lambda>_. 0) syslog_sample (Detect (tables amd64) (re_Payload syslog_sample) (re_Format syslog_sample)) =
     Inr (Some x) \<and> complete_parsed x \<and> int64_ports x"
proof -
  have "tables amd64 = ascii_tables" by (simp add: amd64_def)
  from parsed_events_well_formed [OF sample_parsed [folded this]] show ?thesis using sample_parsed by (simp add: \<open>tables amd64 = ascii_tables\<close>)
qed


text \<open>
  C37.  Ports read back: a port printed in decimal is parsed to itself by the JSON parser, as a string
  for every Go integer and as a JSON number below 2 to the 53, and by the syslog parser after a host
  without colons and brackets.
\<close>

theorem port_round_trips:
  assumes "in_int64 n" and "CHR '':'' \<notin> set host" and "CHR ''['' \<notin> set host" and "CHR '']'' \<notin> set host"
  shows "parsePort pf (AString (itoa n)) = Some n \<and>
    (\<bar>n\<bar> < 2 ^ 53 \<longrightarrow> (\<exists>v. dec_any (JNum (itoa n)) = Inr v \<and> parsePort pf v = Some n)) \<and>
    splitIPAndPort (host @ '':'' @ itoa n) = (host, Some n)"
  using parsePort_string [OF assms(1)] parsePort_number splitIPAndPort_join [OF assms(2-4,1)] by blast

theorem port_round_trips_witness:
  "parsePort amd64 (AString (itoa 443)) = Some 443 \<and> splitIPAndPort (''10.0.0.1'' @ '':'' @ itoa 443) = (''10.0.0.1'', Some 443)"
  using port_round_trips [of 443 "''10.0.0.1''" amd64] by (simp add: in_int64_def)

text \<open>
  C38.  The token scan of the syslog parser takes the last action word and the last protocol word of
  the body, in any letter case, and keeps the default where there is none.
\<close>

theorem syslog_last_word_wins:
  "scan_tokens uc toks (action, protocol) =
     (last_or action (map word_action (filter (\<lambda>t. t \<in> set action_words) (map (to_upper uc) toks))),
      last_or protocol (filter (\<lambda>t. t \<in> set protocol_words) (map (to_upper uc) toks)))"
  by (rule scan_tokens_last)

text \<open>
  C39.  A BSD timestamp of the current year with a two-digit day is normalised to the instant it
  names; one with a one-digit day, padded by a space as BSD syslog writes it, is not read, and the
  event gets the time of parsing instead.
\<close>

theorem syslog_timestamps:
  assumes "1000 \<le> year_of (now 0)" and "year_of (now 0) \<le> 9999" and "year_of t = year_of (now 0)"
    and "1 \<le> m" and "m \<le> 12" and "is_digit d"
  shows "parseSyslogTimestamp now (bsd_stamp t) = format_rfc3339 t \<and>
    parseSyslogTimestamp now (short_months ! nat (m - 1) @ ''  '' @ d # '' '' @ rest) = format_rfc3339 (now 1)"
proof
  show "parseSyslogTimestamp now (bsd_stamp t) = format_rfc3339 t"
    using assms(1-3) by (intro parseSyslogTimestamp_bsd) simp_all
qed (rule parseSyslogTimestamp_short_day; fact assms)

theorem syslog_timestamps_witness:
  "parseSyslogTimestamp (\<lambda>_. 1786000000) ''Aug 05 10:00:00'' = ''2026-08-05T10:00:00Z'' \<and>
   parseSyslogTimestamp (\<lambda>_. 1786000000) ''Aug  5 10:00:00'' = format_rfc3339 1786000000"
proof -
  have y: "year_of 1786000000 = 2026" "year_of 1785924000 = 2026" by code_simp+
  have s: "bsd_stamp 1785924000 = ''Aug 05 10:00:00''" "format_rfc3339 1785924000 = ''2026-08-05T10:00:00Z''" by code_simp+
  from syslog_timestamps [of "\<lambda>_. 1786000000" 1785924000 8 "CHR ''5''" "''10:00:00''"] show ?thesis
    by (simp add: y s is_digit_def short_months_def)
qed

text \<open>
  C40.  A syslog line that starts with a digit, an ISO 8601 timestamp for one, is accepted with the
  time of parsing: its own timestamp is never read.
\<close>

theorem iso_timestamp_ignored:
  assumes "trim_space (re_Payload raw) = c # s" and "is_digit c"
  shows "\<exists>x. SyslogParse pf now raw = Inr (Some x) \<and> pe_Timestamp x = format_rfc3339 (now 0)"
  using no_header_timestamp [OF header_needs_month [OF assms(2)], of "tables pf" now raw s]
  by (simp add: SyslogParse_def assms(1))

theorem iso_timestamp_ignored_witness:
  "dr_Format (Detect (tables amd64) (re_Payload iso_sample) (re_Format iso_sample)) = ''syslog'' \<and>
   (\<exists>x. SyslogParse amd64 (\<lambda>_. 0) iso_sample = Inr (Some x) \<and> pe_Timestamp x = ''1970-01-01T00:00:00Z'')"
proof -
  have "dr_Format (Detect (tables amd64) (re_Payload iso_sample) (re_Format iso_sample)) = ''syslog''"
    "trim_space (re_Payload iso_sample) = CHR ''2'' # ''026-08-05T10:00:00Z fw1 DENY SRC=10.0.0.1''"
    "format_rfc3339 0 = ''1970-01-01T00:00:00Z''" by code_simp+
  then show ?thesis using iso_timestamp_ignored [of iso_sample "CHR ''2''" _ amd64 "\<lambda>_. 0"] by (simp add: is_digit_def)
qed

end
